theory Spec2Isabelle
  imports Complex_Main "HOL-Library.Char_ord" "HOL-Library.List_Lexorder" "HOL-Library.Multiset"
begin

section \<open>JavaScript values, errors and string helpers\<close>

text \<open>
  Values that travel through the query compiler and the repository facade. A JavaScript
  \<open>number\<close> is modelled as an integer; a \<open>Date\<close> is represented by the two renderings
  the code can observe (\<open>toISOString()\<close> and \<open>String(date)\<close>); an object is the list of
  its own enumerable properties in enumeration order.
\<close>

datatype jv =
    JUndef
  | JNull
  | JBool bool
  | JNum int
  | JStr string
  | JDate string string
  | JArr "jv list"
  | JObj "(string \<times> jv) list"

text \<open>A thrown value: either a falsy value or an \<open>Error\<close> object with optional
  \<open>code\<close> and \<open>message\<close>.\<close>

datatype js_error =
    ThrownFalsy
  | JsError (err_code: "string option") (err_message: "string option")

abbreviation Error :: "string \<Rightarrow> js_error" where
  "Error m \<equiv> JsError None (Some m)"

text \<open>\<open>Array.prototype.join\<close> on strings.\<close>

fun join :: "string \<Rightarrow> string list \<Rightarrow> string" where
  "join sep [] = []"
| "join sep [x] = x"
| "join sep (x # y # ys) = x @ sep @ join sep (y # ys)"

text \<open>Decimal rendering of integers, as template literals do for integral numbers.\<close>

fun show_nat :: "nat \<Rightarrow> string" where
  "show_nat n =
     (if n < 10 then [''0123456789'' ! n]
      else show_nat (n div 10) @ [''0123456789'' ! (n mod 10)])"

declare show_nat.simps [simp del]

definition show_int :: "int \<Rightarrow> string" where
  "show_int i = (if i < 0 then ''-'' @ show_nat (nat (- i)) else show_nat (nat i))"

text \<open>\<open>String(value)\<close>, as used by template literals.\<close>

fun js_String :: "jv \<Rightarrow> string" where
  "js_String JUndef = ''undefined''"
| "js_String JNull = ''null''"
| "js_String (JBool b) = (if b then ''true'' else ''false'')"
| "js_String (JNum n) = show_int n"
| "js_String (JStr s) = s"
| "js_String (JDate i d) = d"
| "js_String (JArr xs) =
     join '','' (map (\<lambda>x. case x of JUndef \<Rightarrow> [] | JNull \<Rightarrow> [] | _ \<Rightarrow> js_String x) xs)"
| "js_String (JObj kvs) = ''[object Object]''"

text \<open>\<open>String.prototype.split('.')\<close>.\<close>

fun split_dot :: "string \<Rightarrow> string list" where
  "split_dot [] = [[]]"
| "split_dot (c # cs) =
     (if c = CHR ''.'' then [] # split_dot cs
      else (case split_dot cs of [] \<Rightarrow> [[c]] | x # xs \<Rightarrow> (c # x) # xs))"

text \<open>\<open>String.prototype.toUpperCase\<close> on ASCII letters.\<close>

definition upper_char :: "char \<Rightarrow> char" where
  "upper_char c =
     (if CHR ''a'' \<le> c \<and> c \<le> CHR ''z'' then char_of (of_char c - (32::nat)) else c)"

definition toUpperCase :: "string \<Rightarrow> string" where
  "toUpperCase s = map upper_char s"

section \<open>Query compiler: the MySQL dialect\<close>

record ValueHolders =
  prepare :: string
  holders :: "jv list"

definition emptyVH :: ValueHolders where
  "emptyVH = \<lparr>prepare = [], holders = []\<rparr>"

text \<open>\<open>BaseDialect.toSQLHolder\<close> with \<open>formatDate\<close> and \<open>formatBoolean\<close>.\<close>

fun toSQLHolder :: "jv \<Rightarrow> jv" where
  "toSQLHolder (JDate i d) = JStr i"
| "toSQLHolder (JBool b) = JNum (if b then 1 else 0)"
| "toSQLHolder v = v"

text \<open>\<open>MySQLDialect.escapeIdentifier\<close>: backticks around the identifier.\<close>

definition escapeIdentifier :: "string \<Rightarrow> string" where
  "escapeIdentifier identifier = ''`'' @ identifier @ ''`''"

text \<open>The table \<open>OperatorMap\<close> of the type module.\<close>

definition OperatorMap :: "(string \<times> string) list" where
  "OperatorMap =
     [(''eq'', ''=''), (''ne'', ''!=''), (''gt'', ''>''), (''gte'', ''>=''),
      (''lt'', ''<''), (''lte'', ''<=''), (''in'', ''IN''), (''notIn'', ''NOT IN''),
      (''between'', ''BETWEEN''), (''notBetween'', ''NOT BETWEEN''),
      (''like'', ''LIKE''), (''notLike'', ''NOT LIKE''), (''rlike'', ''RLIKE''),
      (''notRlike'', ''NOT RLIKE''), (''isNull'', ''IS NULL''),
      (''isNotNull'', ''IS NOT NULL''), (''startsWith'', ''LIKE''),
      (''endsWith'', ''LIKE''), (''contains'', ''LIKE'')]"

definition opSql :: "string \<Rightarrow> string" where
  "opSql operator = (case map_of OperatorMap operator of Some s \<Rightarrow> s | None \<Rightarrow> ''undefined'')"

text \<open>\<open>MySQLDialect.createOperatorCondition\<close>: the \<open>switch\<close> over the operator name,
  with the two run-time checks of the range operators as errors.\<close>

definition createOperatorCondition :: "string \<Rightarrow> string \<Rightarrow> jv \<Rightarrow> js_error + ValueHolders" where
  "createOperatorCondition key operator v =
     (let field = escapeIdentifier key in
      if operator \<in> set [''eq'', ''ne'', ''gt'', ''gte'', ''lt'', ''lte''] then
        Inr \<lparr>prepare = field @ '' '' @ opSql operator @ '' ?'', holders = [toSQLHolder v]\<rparr>
      else if operator \<in> set [''in'', ''notIn''] then
        (case v of
           JArr vs \<Rightarrow>
             if vs = [] then Inl (Error (operator @ '' operator requires a non-empty array''))
             else Inr \<lparr>prepare = field @ '' '' @ opSql operator @ '' ('' @
                                   join '', '' (map (\<lambda>_. ''?'') vs) @ '')'',
                       holders = map toSQLHolder vs\<rparr>
         | _ \<Rightarrow> Inl (Error (operator @ '' operator requires an array value'')))
      else if operator \<in> set [''between'', ''notBetween''] then
        (case v of
           JArr vs \<Rightarrow>
             (case vs of
                [lo, hi] \<Rightarrow>
                  Inr \<lparr>prepare = field @ '' '' @ opSql operator @ '' ? AND ?'',
                       holders = [toSQLHolder lo, toSQLHolder hi]\<rparr>
              | _ \<Rightarrow> Inl (Error (operator @ '' operator requires exactly 2 values'')))
         | _ \<Rightarrow> Inl (Error (operator @ '' operator requires an array value'')))
      else if operator \<in> set [''like'', ''notLike'', ''rlike'', ''notRlike''] then
        Inr \<lparr>prepare = field @ '' '' @ opSql operator @ '' ?'', holders = [v]\<rparr>
      else if operator = ''startsWith'' then
        Inr \<lparr>prepare = field @ '' LIKE ?'', holders = [JStr (js_String v @ ''%'')]\<rparr>
      else if operator = ''endsWith'' then
        Inr \<lparr>prepare = field @ '' LIKE ?'', holders = [JStr (''%'' @ js_String v)]\<rparr>
      else if operator = ''contains'' then
        Inr \<lparr>prepare = field @ '' LIKE ?'', holders = [JStr (''%'' @ js_String v @ ''%'')]\<rparr>
      else if operator = ''isNull'' then
        (if v = JBool True then Inr \<lparr>prepare = field @ '' IS NULL'', holders = []\<rparr>
         else if v = JBool False then Inr \<lparr>prepare = field @ '' IS NOT NULL'', holders = []\<rparr>
         else Inr emptyVH)
      else if operator = ''isNotNull'' then
        (if v = JBool True then Inr \<lparr>prepare = field @ '' IS NOT NULL'', holders = []\<rparr>
         else if v = JBool False then Inr \<lparr>prepare = field @ '' IS NULL'', holders = []\<rparr>
         else Inr emptyVH)
      else Inr emptyVH)"

text \<open>\<open>Object.keys(value)\<close> for a value whose \<open>typeof\<close> is \<open>'object'\<close> and that is
  neither \<open>null\<close> nor a \<open>Date\<close>: the properties of an object, the indices of an array.\<close>

fun object_entries :: "jv \<Rightarrow> (string \<times> jv) list" where
  "object_entries (JObj kvs) = kvs"
| "object_entries (JArr xs) = zip (map show_nat [0..<length xs]) xs"
| "object_entries v = []"

text \<open>The loop of \<open>createFilter\<close> over the operators of an operator object.\<close>

fun createFilter_loop ::
  "string \<Rightarrow> (string \<times> jv) list \<Rightarrow> string list \<Rightarrow> jv list \<Rightarrow> js_error + (string list \<times> jv list)" where
  "createFilter_loop key [] conditions hs = Inr (conditions, hs)"
| "createFilter_loop key ((operator, opValue) # rest) conditions hs =
     (case createOperatorCondition key operator opValue of
        Inl e \<Rightarrow> Inl e
      | Inr result \<Rightarrow>
          if prepare result \<noteq> [] then
            createFilter_loop key rest (conditions @ [prepare result]) (hs @ holders result)
          else createFilter_loop key rest conditions hs)"

text \<open>\<open>MySQLDialect.createFilter\<close>.\<close>

definition is_plain :: "jv \<Rightarrow> bool" where
  "is_plain v = (case v of JObj _ \<Rightarrow> False | JArr _ \<Rightarrow> False | JNull \<Rightarrow> False
                          | JUndef \<Rightarrow> False | _ \<Rightarrow> True)"

definition createFilter :: "string \<Rightarrow> jv \<Rightarrow> js_error + ValueHolders" where
  "createFilter key v =
     (if v = JNull then Inr \<lparr>prepare = escapeIdentifier key @ '' IS NULL'', holders = []\<rparr>
      else if v = JUndef then Inr emptyVH
      else if is_plain v then
        Inr \<lparr>prepare = escapeIdentifier key @ '' = ?'', holders = [toSQLHolder v]\<rparr>
      else
        (case createFilter_loop key (object_entries v) [] [] of
           Inl e \<Rightarrow> Inl e
         | Inr (conditions, hs) \<Rightarrow>
             if conditions = [] then Inr emptyVH
             else Inr \<lparr>prepare = (if length conditions > 1
                                   then ''('' @ join '' AND '' conditions @ '')''
                                   else hd conditions),
                       holders = hs\<rparr>))"

text \<open>\<open>MySQLDialect.createDataFilter\<close>: an assignment of an UPDATE statement. Only the
  first operator of an operator object is used.\<close>

definition createDataFilter :: "string \<Rightarrow> jv \<Rightarrow> ValueHolders" where
  "createDataFilter key v =
     (let field = escapeIdentifier key in
      if v = JNull then \<lparr>prepare = field @ '' = NULL'', holders = []\<rparr>
      else if v = JUndef then emptyVH
      else if is_plain v then \<lparr>prepare = field @ '' = ?'', holders = [toSQLHolder v]\<rparr>
      else
        (case object_entries v of
           [] \<Rightarrow> emptyVH
         | (operator, opValue) # _ \<Rightarrow>
             if operator = ''set'' then
               \<lparr>prepare = field @ '' = ?'', holders = [toSQLHolder opValue]\<rparr>
             else if operator = ''increment'' then
               \<lparr>prepare = field @ '' = '' @ field @ '' + ?'', holders = [opValue]\<rparr>
             else if operator = ''decrement'' then
               \<lparr>prepare = field @ '' = '' @ field @ '' - ?'', holders = [opValue]\<rparr>
             else if operator = ''multiply'' then
               \<lparr>prepare = field @ '' = '' @ field @ '' * ?'', holders = [opValue]\<rparr>
             else if operator = ''divide'' then
               \<lparr>prepare = field @ '' = '' @ field @ '' / ?'', holders = [opValue]\<rparr>
             else emptyVH))"

text \<open>\<open>MySQLDialect.createFieldConditions\<close>: the plain fields of a condition object,
  joined by AND.\<close>

fun createFieldConditions_loop ::
  "(string \<times> jv) list \<Rightarrow> string list \<Rightarrow> jv list \<Rightarrow> js_error + ValueHolders" where
  "createFieldConditions_loop [] conditions hs =
     Inr \<lparr>prepare = join '' AND '' conditions, holders = hs\<rparr>"
| "createFieldConditions_loop ((key, v) # rest) conditions hs =
     (case createFilter key v of
        Inl e \<Rightarrow> Inl e
      | Inr result \<Rightarrow>
          if prepare result \<noteq> [] then
            createFieldConditions_loop rest (conditions @ [prepare result]) (hs @ holders result)
          else createFieldConditions_loop rest conditions hs)"

definition createFieldConditions :: "(string \<times> jv) list \<Rightarrow> js_error + ValueHolders" where
  "createFieldConditions flds = createFieldConditions_loop flds [] []"

text \<open>
  The type \<open>Where\<close>: absent or \<open>null\<close>; a raw SQL string; a raw fragment with an
  optional parameter list; or a condition object with plain fields, an optional \<open>AND\<close>
  array and an optional \<open>OR\<close> array.
\<close>

datatype wh =
    WNull
  | WStr string
  | WTuple string "jv list option"
  | WObj "(string \<times> jv) list" "wh list option" "wh list option"

text \<open>\<open>Object.keys(condition).length\<close> and the \<open>in\<close> tests of the bracketing rules.\<close>

fun keyCount :: "wh \<Rightarrow> nat" where
  "keyCount (WObj flds ands ors) =
     length flds + (if ands = None then 0 else 1) + (if ors = None then 0 else 1)"
| "keyCount w = 0"

fun hasOR :: "wh \<Rightarrow> bool" where
  "hasOR (WObj flds ands ors) = (ors \<noteq> None)"
| "hasOR w = False"

fun hasAND :: "wh \<Rightarrow> bool" where
  "hasAND (WObj flds ands ors) = (ands \<noteq> None)"
| "hasAND w = False"

definition bracket :: "string \<Rightarrow> string" where
  "bracket s = ''( '' @ s @ '' )''"

text \<open>\<open>MySQLDialect.createWhere\<close>, \<open>createLogicalWhere\<close>, \<open>createAndConditions\<close> and
  \<open>createOrConditions\<close>, which call each other.\<close>

fun createWhere :: "wh \<Rightarrow> js_error + ValueHolders"
and createAndConditions :: "wh list \<Rightarrow> string list \<Rightarrow> jv list \<Rightarrow> js_error + ValueHolders"
and createOrConditions :: "wh list \<Rightarrow> string list \<Rightarrow> jv list \<Rightarrow> js_error + ValueHolders"
where
  "createWhere WNull = Inr emptyVH"
| "createWhere (WStr s) = Inr \<lparr>prepare = s, holders = []\<rparr>"
| "createWhere (WTuple sql params) =
     Inr \<lparr>prepare = sql, holders = (case params of None \<Rightarrow> [] | Some ps \<Rightarrow> ps)\<rparr>"
| "createWhere (WObj flds ands ors) =
     (if flds = [] \<and> ands = None \<and> ors = None then Inr emptyVH
      else
        \<comment> \<open>createLogicalWhere\<close>
        (let fieldConditions = filter (\<lambda>(k, v). k \<noteq> ''AND'' \<and> k \<noteq> ''OR'') flds in
         case (if fieldConditions \<noteq> [] then createFieldConditions fieldConditions
               else Inr emptyVH) of
           Inl e \<Rightarrow> Inl e
         | Inr r1 \<Rightarrow>
             let conditions1 = (if prepare r1 \<noteq> [] then [prepare r1] else []);
                 holders1 = (if prepare r1 \<noteq> [] then holders r1 else [])
             in
             (case (case ands of
                      None \<Rightarrow> Inr emptyVH
                    | Some andConditions \<Rightarrow>
                        if andConditions \<noteq> [] then createAndConditions andConditions [] []
                        else Inr emptyVH) of
                Inl e \<Rightarrow> Inl e
              | Inr r2 \<Rightarrow>
                  let conditions2 = (if prepare r2 \<noteq> [] then conditions1 @ [prepare r2]
                                     else conditions1);
                      holders2 = (if prepare r2 \<noteq> [] then holders1 @ holders r2 else holders1)
                  in
                  (case (case ors of
                           None \<Rightarrow> Inr emptyVH
                         | Some orConditions \<Rightarrow>
                             if orConditions \<noteq> [] then createOrConditions orConditions [] []
                             else Inr emptyVH) of
                     Inl e \<Rightarrow> Inl e
                   | Inr r3 \<Rightarrow>
                       let orPart = (if conditions2 \<noteq> [] then bracket (prepare r3)
                                     else prepare r3);
                           conditions3 = (if prepare r3 \<noteq> [] then conditions2 @ [orPart]
                                          else conditions2);
                           holders3 = (if prepare r3 \<noteq> [] then holders2 @ holders r3
                                       else holders2)
                       in Inr \<lparr>prepare = join '' AND '' conditions3, holders = holders3\<rparr>))))"
| "createAndConditions [] parts hs = Inr \<lparr>prepare = join '' AND '' parts, holders = hs\<rparr>"
| "createAndConditions (condition # rest) parts hs =
     (case createWhere condition of
        Inl e \<Rightarrow> Inl e
      | Inr result \<Rightarrow>
          if prepare result \<noteq> [] then
            (let needsBracket = hasOR condition;
                 part = (if needsBracket then bracket (prepare result) else prepare result)
             in createAndConditions rest (parts @ [part]) (hs @ holders result))
          else createAndConditions rest parts hs)"
| "createOrConditions [] parts hs = Inr \<lparr>prepare = join '' OR '' parts, holders = hs\<rparr>"
| "createOrConditions (condition # rest) parts hs =
     (case createWhere condition of
        Inl e \<Rightarrow> Inl e
      | Inr result \<Rightarrow>
          if prepare result \<noteq> [] then
            (let needsBracket = (keyCount condition > 1 \<or> hasAND condition);
                 part = (if needsBracket then bracket (prepare result) else prepare result)
             in createOrConditions rest (parts @ [part]) (hs @ holders result))
          else createOrConditions rest parts hs)"

text \<open>\<open>MySQLDialect.createOrder\<close>: only string directions that upper-case to ASC or
  DESC contribute.\<close>

fun createOrder_loop :: "(string \<times> jv) list \<Rightarrow> string list \<Rightarrow> string list" where
  "createOrder_loop [] parts = parts"
| "createOrder_loop ((key, v) # rest) parts =
     (case v of
        JStr s \<Rightarrow>
          (let direction = toUpperCase s in
           if direction = ''ASC'' \<or> direction = ''DESC''
           then createOrder_loop rest (parts @ [escapeIdentifier key @ '' '' @ direction])
           else createOrder_loop rest parts)
      | _ \<Rightarrow> createOrder_loop rest parts)"

definition createOrder :: "(string \<times> jv) list option \<Rightarrow> string" where
  "createOrder order =
     (case order of None \<Rightarrow> [] | Some kvs \<Rightarrow> join '', '' (createOrder_loop kvs []))"

text \<open>JOIN definitions: a bare ON string, or a configuration with optional \<open>type\<close>,
  \<open>on\<close> and \<open>using\<close>.\<close>

record JoinConfig =
  join_type :: "string option"
  join_on :: "string option"
  join_using :: "string list option"

datatype join_def = JoinOn string | JoinCfg JoinConfig

definition validTypes :: "string list" where
  "validTypes = [''INNER'', ''LEFT'', ''RIGHT'', ''FULL'', ''CROSS'']"

fun createJoin_loop :: "(string \<times> join_def) list \<Rightarrow> string list \<Rightarrow> js_error + string" where
  "createJoin_loop [] parts = Inr (join [] parts)"
| "createJoin_loop ((tableName, JoinOn joinDef) # rest) parts =
     createJoin_loop rest (parts @ ['' INNER JOIN '' @ escapeIdentifier tableName @ '' ON '' @ joinDef])"
| "createJoin_loop ((tableName, JoinCfg cfg) # rest) parts =
     (let ty = (case join_type cfg of None \<Rightarrow> ''INNER'' | Some t \<Rightarrow> t) in
      if ty \<notin> set validTypes then
        Inl (Error (''Invalid JOIN type: '' @ ty @ ''. Valid types are: '' @ join '', '' validTypes))
      else
        (let joinClause = '' '' @ ty @ '' JOIN '' @ escapeIdentifier tableName in
         if ty = ''CROSS'' then createJoin_loop rest (parts @ [joinClause])
         else
           (case join_using cfg of
              Some us \<Rightarrow>
                if us = [] then
                  Inl (Error (''JOIN \"using\" must be a non-empty array for table \"'' @ tableName @ ''\"''))
                else createJoin_loop rest
                       (parts @ [joinClause @ '' USING ('' @ join '', '' (map escapeIdentifier us) @ '')''])
            | None \<Rightarrow>
                (case join_on cfg of
                   Some c \<Rightarrow>
                     if c \<noteq> [] then createJoin_loop rest (parts @ [joinClause @ '' ON '' @ c])
                     else Inl (Error (''JOIN on table \"'' @ tableName @
                            ''\" requires either \"on\" or \"using\" condition (or use type: \"CROSS\")''))
                 | None \<Rightarrow>
                     Inl (Error (''JOIN on table \"'' @ tableName @
                            ''\" requires either \"on\" or \"using\" condition (or use type: \"CROSS\")''))))))"

definition createJoin :: "(string \<times> join_def) list option \<Rightarrow> js_error + string" where
  "createJoin j =
     (case j of None \<Rightarrow> Inr [] | Some defs \<Rightarrow> if defs = [] then Inr [] else createJoin_loop defs [])"

text \<open>\<open>MySQLDialect.createGroupBy\<close>: a field or a list of fields, each escaped, a dotted
  name part by part.\<close>

datatype group_by = GStr string | GArr "string list"

definition escapeDotted :: "string \<Rightarrow> string" where
  "escapeDotted field =
     (if CHR ''.'' \<in> set field then join ''.'' (map escapeIdentifier (split_dot field))
      else escapeIdentifier field)"

definition createGroupBy :: "group_by option \<Rightarrow> string" where
  "createGroupBy groupBy =
     (case groupBy of
        None \<Rightarrow> []
      | Some (GStr s) \<Rightarrow> if s = [] then [] else escapeDotted s
      | Some (GArr fs) \<Rightarrow> if fs = [] then [] else join '', '' (map escapeDotted fs))"

text \<open>\<open>MySQLDialect.createHaving\<close>.\<close>

datatype having = HStr string | HTuple string "jv list option" | HObj "(string \<times> jv) list"

definition createHaving :: "having option \<Rightarrow> js_error + ValueHolders" where
  "createHaving h =
     (case h of
        None \<Rightarrow> Inr emptyVH
      | Some (HStr s) \<Rightarrow> Inr \<lparr>prepare = s, holders = []\<rparr>
      | Some (HTuple sql params) \<Rightarrow>
          Inr \<lparr>prepare = sql, holders = (case params of None \<Rightarrow> [] | Some ps \<Rightarrow> ps)\<rparr>
      | Some (HObj kvs) \<Rightarrow> createFieldConditions_loop kvs [] [])"

text \<open>\<open>buildLimitOffset\<close>.\<close>

definition buildLimitOffset :: "int \<Rightarrow> int \<Rightarrow> string" where
  "buildLimitOffset limit offset =
     (if offset > 0 then '' LIMIT '' @ show_int offset @ '', '' @ show_int limit
      else '' LIMIT '' @ show_int limit)"

section \<open>Statement builders\<close>

text \<open>A clause that is appended only when its text is non-empty.\<close>

definition clause :: "string \<Rightarrow> string \<Rightarrow> string" where
  "clause kw s = (if s \<noteq> [] then kw @ s else [])"

definition limitClause :: "int option \<Rightarrow> string" where
  "limitClause limit =
     (case limit of None \<Rightarrow> [] | Some n \<Rightarrow> if n \<noteq> 0 \<and> n > 0 then '' LIMIT '' @ show_int n else [])"

record select_params =
  sp_table :: string
  sp_fields :: "string option"
  sp_where :: wh
  sp_order :: "(string \<times> jv) list option"
  sp_limit :: "int option"
  sp_offset :: "int option"
  sp_join :: "(string \<times> join_def) list option"
  sp_groupBy :: "group_by option"
  sp_having :: "having option"

text \<open>\<open>BaseDialect.buildSelect\<close>: JOIN, WHERE, GROUP BY, HAVING, ORDER BY, LIMIT.\<close>

definition buildSelect :: "select_params \<Rightarrow> js_error + ValueHolders" where
  "buildSelect params =
     (let flds = (case sp_fields params of None \<Rightarrow> ''*'' | Some f \<Rightarrow> f);
          offset = (case sp_offset params of None \<Rightarrow> 0 | Some n \<Rightarrow> n);
          sql0 = ''SELECT '' @ flds @ '' FROM '' @ escapeIdentifier (sp_table params)
      in
      case createJoin (sp_join params) of
        Inl e \<Rightarrow> Inl e
      | Inr joinStr \<Rightarrow>
          (case createWhere (sp_where params) of
             Inl e \<Rightarrow> Inl e
           | Inr whereResult \<Rightarrow>
               (case createHaving (sp_having params) of
                  Inl e \<Rightarrow> Inl e
                | Inr havingResult \<Rightarrow>
                    Inr \<lparr>prepare =
                           sql0 @ joinStr
                           @ clause '' WHERE '' (prepare whereResult)
                           @ clause '' GROUP BY '' (createGroupBy (sp_groupBy params))
                           @ clause '' HAVING '' (prepare havingResult)
                           @ clause '' ORDER BY '' (createOrder (sp_order params))
                           @ (case sp_limit params of
                                None \<Rightarrow> []
                              | Some limit \<Rightarrow>
                                  if limit \<noteq> 0 \<and> limit > 0 then buildLimitOffset limit offset
                                  else []),
                         holders =
                           (if prepare whereResult \<noteq> [] then holders whereResult else [])
                           @ (if prepare havingResult \<noteq> [] then holders havingResult else [])\<rparr>)))"

text \<open>\<open>BaseDialect.buildInsert\<close>: the field list is that of the first record; every row
  contributes one placeholder and one parameter per field.\<close>

definition getProp :: "(string \<times> jv) list \<Rightarrow> string \<Rightarrow> jv" where
  "getProp obj k = (case map_of obj k of None \<Rightarrow> JUndef | Some v \<Rightarrow> v)"

record insert_params =
  ip_table :: string
  ip_data :: "(string \<times> jv) list list"

definition buildInsert :: "insert_params \<Rightarrow> js_error + ValueHolders" where
  "buildInsert params =
     (let data = ip_data params in
      if data = [] then Inl (Error ''Insert data cannot be empty'')
      else
        (let flds = map fst (hd data);
             escapedFields = map escapeIdentifier flds;
             sql0 = ''INSERT INTO '' @ escapeIdentifier (ip_table params) @ '' (''
                    @ join '', '' escapedFields @ '') VALUES'';
             valueSets = map (\<lambda>row. ''('' @ join '', '' (map (\<lambda>field. ''?'') flds) @ '')'') data;
             hs = concat (map (\<lambda>row. map (\<lambda>field. toSQLHolder (getProp row field)) flds) data)
         in Inr \<lparr>prepare = sql0 @ '' '' @ join '', '' valueSets, holders = hs\<rparr>))"

text \<open>\<open>BaseDialect.buildUpdate\<close>: the assignments that resolve to a fragment; none at
  all is an error, raised before the WHERE clause is compiled.\<close>

fun buildUpdate_loop :: "(string \<times> jv) list \<Rightarrow> string list \<Rightarrow> jv list \<Rightarrow> string list \<times> jv list" where
  "buildUpdate_loop [] parts hs = (parts, hs)"
| "buildUpdate_loop ((key, v) # rest) parts hs =
     (let result = createDataFilter key v in
      if prepare result \<noteq> [] then
        buildUpdate_loop rest (parts @ [prepare result]) (hs @ holders result)
      else buildUpdate_loop rest parts hs)"

record update_params =
  up_table :: string
  up_data :: "(string \<times> jv) list"
  up_where :: wh
  up_order :: "(string \<times> jv) list option"
  up_limit :: "int option"

definition buildUpdate :: "update_params \<Rightarrow> js_error + ValueHolders" where
  "buildUpdate params =
     (case buildUpdate_loop (up_data params) [] [] of
        (parts, hs) \<Rightarrow>
          if length parts = 0 then Inl (Error ''No fields to update'')
          else
            (case createWhere (up_where params) of
               Inl e \<Rightarrow> Inl e
             | Inr whereResult \<Rightarrow>
                 Inr \<lparr>prepare =
                        ''UPDATE '' @ escapeIdentifier (up_table params) @ '' SET ''
                        @ join '', '' parts
                        @ clause '' WHERE '' (prepare whereResult)
                        @ clause '' ORDER BY '' (createOrder (up_order params))
                        @ limitClause (up_limit params),
                      holders =
                        hs @ (if prepare whereResult \<noteq> [] then holders whereResult else [])\<rparr>))"

record delete_params =
  dp_table :: string
  dp_where :: wh
  dp_order :: "(string \<times> jv) list option"
  dp_limit :: "int option"

definition buildDelete :: "delete_params \<Rightarrow> js_error + ValueHolders" where
  "buildDelete params =
     (case createWhere (dp_where params) of
        Inl e \<Rightarrow> Inl e
      | Inr whereResult \<Rightarrow>
          Inr \<lparr>prepare =
                 ''DELETE FROM '' @ escapeIdentifier (dp_table params)
                 @ clause '' WHERE '' (prepare whereResult)
                 @ clause '' ORDER BY '' (createOrder (dp_order params))
                 @ limitClause (dp_limit params),
               holders = (if prepare whereResult \<noteq> [] then holders whereResult else [])\<rparr>)"

record count_params =
  cp_table :: string
  cp_where :: wh
  cp_join :: "(string \<times> join_def) list option"
  cp_groupBy :: "group_by option"
  cp_having :: "having option"

definition buildCount :: "count_params \<Rightarrow> js_error + ValueHolders" where
  "buildCount params =
     (case createJoin (cp_join params) of
        Inl e \<Rightarrow> Inl e
      | Inr joinStr \<Rightarrow>
          (case createWhere (cp_where params) of
             Inl e \<Rightarrow> Inl e
           | Inr whereResult \<Rightarrow>
               (case createHaving (cp_having params) of
                  Inl e \<Rightarrow> Inl e
                | Inr havingResult \<Rightarrow>
                    Inr \<lparr>prepare =
                           ''SELECT COUNT(*) as '' @ escapeIdentifier ''total_num'' @ '' FROM ''
                           @ escapeIdentifier (cp_table params) @ joinStr
                           @ clause '' WHERE '' (prepare whereResult)
                           @ clause '' GROUP BY '' (createGroupBy (cp_groupBy params))
                           @ clause '' HAVING '' (prepare havingResult),
                         holders =
                           (if prepare whereResult \<noteq> [] then holders whereResult else [])
                           @ (if prepare havingResult \<noteq> [] then holders havingResult else [])\<rparr>)))"

definition buildExists :: "string \<Rightarrow> wh \<Rightarrow> js_error + ValueHolders" where
  "buildExists table w =
     (case createWhere w of
        Inl e \<Rightarrow> Inl e
      | Inr whereResult \<Rightarrow>
          Inr \<lparr>prepare =
                 ''SELECT 1 FROM '' @ escapeIdentifier table
                 @ clause '' WHERE '' (prepare whereResult) @ '' LIMIT 1'',
               holders = (if prepare whereResult \<noteq> [] then holders whereResult else [])\<rparr>)"

text \<open>\<open>MySQLDialect.buildUpsert\<close>: INSERT ... ON DUPLICATE KEY UPDATE over the fields of
  \<open>updateData\<close> (or of \<open>data\<close>) that are not unique keys.\<close>

record upsert_params =
  us_data :: "(string \<times> jv) list"
  us_uniqueKeys :: "string list"
  us_updateData :: "(string \<times> jv) list option"

definition buildUpsert :: "string \<Rightarrow> upsert_params \<Rightarrow> ValueHolders" where
  "buildUpsert table params =
     (let data = us_data params;
          flds = map (\<lambda>(key, v). escapeIdentifier key) data;
          holders1 = map (\<lambda>(key, v). toSQLHolder v) data;
          placeholders = join '', '' (map (\<lambda>f. ''?'') flds);
          sql0 = ''INSERT INTO '' @ escapeIdentifier table @ '' ('' @ join '', '' flds
                 @ '') VALUES ('' @ placeholders @ '')'';
          updateFields = (case us_updateData params of None \<Rightarrow> data | Some u \<Rightarrow> u);
          kept = filter (\<lambda>(key, v). key \<notin> set (us_uniqueKeys params)) updateFields;
          updateParts = map (\<lambda>(key, v). escapeIdentifier key @ '' = ?'') kept;
          holders2 = map (\<lambda>(key, v). toSQLHolder v) kept
      in \<lparr>prepare = sql0 @ (if updateParts \<noteq> []
                             then '' ON DUPLICATE KEY UPDATE '' @ join '', '' updateParts else []),
          holders = holders1 @ holders2\<rparr>)"

section \<open>Repository facade: Table\<close>

record ResultHeader =
  affectedRows :: int
  insertId :: "int option"

record OperationResult =
  op_type :: string
  op_affectedRows :: int
  op_insertId :: "int option"
  op_action :: "string option"

text \<open>
  A table: its name, the slot of the last operation result, and the statements handed to
  the driver so far. The driver is the function \<open>drv\<close> that answers \<open>execute(sql, params)\<close>
  with a result header or a thrown error. The dialect is the MySQL dialect, the only one
  the repository constructs; the diagnostic SQL log is left out.
\<close>

record table =
  tableName :: string
  lastOperationResult :: "OperationResult option"
  issued :: "(string \<times> jv list) list"

type_synonym driver = "string \<Rightarrow> jv list \<Rightarrow> js_error + ResultHeader"

definition execute :: "driver \<Rightarrow> ValueHolders \<Rightarrow> table \<Rightarrow> (js_error + ResultHeader) \<times> table" where
  "execute drv vh t =
     (drv (prepare vh) (holders vh), t\<lparr>issued := issued t @ [(prepare vh, holders vh)]\<rparr>)"

text \<open>The field check of \<open>Table.adds\<close>: records 1, 2, ... against the sorted keys of
  record 0.\<close>

definition sameKeys :: "string list \<Rightarrow> string list \<Rightarrow> bool" where
  "sameKeys keys firstKeys =
     (if length keys \<noteq> length firstKeys then False
      else list_all (\<lambda>(key, index). key = firstKeys ! index) (zip keys [0..<length keys]))"

fun adds_check :: "string list \<Rightarrow> (string \<times> jv) list list \<Rightarrow> nat \<Rightarrow> js_error option" where
  "adds_check firstKeys [] i = None"
| "adds_check firstKeys (r # rest) i =
     (let keys = sort (map fst r) in
      if \<not> sameKeys keys firstKeys then
        Some (Error (''Record at index '' @ show_nat i @ '' has different fields. ''
                     @ ''Expected: ['' @ join '', '' firstKeys @ ''], ''
                     @ ''Got: ['' @ join '', '' keys @ '']''))
      else adds_check firstKeys rest (Suc i))"

definition adds :: "driver \<Rightarrow> (string \<times> jv) list list \<Rightarrow> table \<Rightarrow> (js_error + bool) \<times> table" where
  "adds drv data t =
     (if data = [] then
        (Inl (Error ''Parameter error, data must be an array with length >= 1''), t)
      else
        (case adds_check (sort (map fst (hd data))) (tl data) 1 of
           Some e \<Rightarrow> (Inl e, t)
         | None \<Rightarrow>
             (case buildInsert \<lparr>ip_table = tableName t, ip_data = data\<rparr> of
                Inl e \<Rightarrow> (Inl e, t)
              | Inr vh \<Rightarrow>
                  (case execute drv vh t of
                     (Inl e, t1) \<Rightarrow> (Inl e, t1)
                   | (Inr result, t1) \<Rightarrow>
                       if affectedRows result \<noteq> int (length data) then
                         (Inl (Error (''Expected to insert '' @ show_nat (length data)
                                      @ '' rows but only '' @ show_int (affectedRows result)
                                      @ '' were affected'')), t1)
                       else
                         (Inr True,
                          t1\<lparr>lastOperationResult :=
                               Some \<lparr>op_type = ''insert'', op_affectedRows = affectedRows result,
                                     op_insertId = insertId result, op_action = None\<rparr>\<rparr>)))))"

text \<open>\<open>Table.update\<close>: the whole body runs inside \<open>try\<close>; the handler turns the
  compiler's "No fields to update" into a successful no-op.\<close>

definition update_catch :: "js_error \<Rightarrow> table \<Rightarrow> (js_error + bool) \<times> table" where
  "update_catch e t =
     (if e \<noteq> ThrownFalsy \<and> err_message e = Some ''No fields to update'' then
        (Inr True,
         t\<lparr>lastOperationResult :=
             Some \<lparr>op_type = ''update'', op_affectedRows = 0,
                   op_insertId = None, op_action = None\<rparr>\<rparr>)
      else (Inl e, t))"

record table_update_params =
  tu_data :: "(string \<times> jv) list"
  tu_where :: wh
  tu_order :: "(string \<times> jv) list option"
  tu_limit :: "int option"

definition update :: "driver \<Rightarrow> table_update_params \<Rightarrow> table \<Rightarrow> (js_error + bool) \<times> table" where
  "update drv params t =
     (case buildUpdate \<lparr>up_table = tableName t, up_data = tu_data params,
                        up_where = tu_where params, up_order = tu_order params,
                        up_limit = tu_limit params\<rparr> of
        Inl e \<Rightarrow> update_catch e t
      | Inr vh \<Rightarrow>
          (case execute drv vh t of
             (Inl e, t1) \<Rightarrow> update_catch e t1
           | (Inr result, t1) \<Rightarrow>
               (Inr True,
                t1\<lparr>lastOperationResult :=
                     Some \<lparr>op_type = ''update'', op_affectedRows = affectedRows result,
                           op_insertId = None, op_action = None\<rparr>\<rparr>)))"

text \<open>\<open>Table.upsert\<close>: the unique-key checks, one statement, and the action read off the
  affected-row count.\<close>

fun uniqueKeys_check :: "string list \<Rightarrow> (string \<times> jv) list \<Rightarrow> js_error option" where
  "uniqueKeys_check [] data = None"
| "uniqueKeys_check (key # rest) data =
     (if key \<notin> fst ` set data then Some (Error (''uniqueKey \"'' @ key @ ''\" not found in data''))
      else uniqueKeys_check rest data)"

definition upsert :: "driver \<Rightarrow> upsert_params \<Rightarrow> table \<Rightarrow> (js_error + bool) \<times> table" where
  "upsert drv params t =
     (if us_uniqueKeys params = [] then
        (Inl (Error ''uniqueKeys is required for upsert operation''), t)
      else
        (case uniqueKeys_check (us_uniqueKeys params) (us_data params) of
           Some e \<Rightarrow> (Inl e, t)
         | None \<Rightarrow>
             (case execute drv (buildUpsert (tableName t) params) t of
                (Inl e, t1) \<Rightarrow> (Inl e, t1)
              | (Inr result, t1) \<Rightarrow>
                  (let action = (if affectedRows result = 1 then ''insert'' else ''update'') in
                   (Inr True,
                    t1\<lparr>lastOperationResult :=
                         Some \<lparr>op_type = ''upsert'', op_affectedRows = affectedRows result,
                               op_insertId = insertId result, op_action = Some action\<rparr>\<rparr>)))))"

text \<open>The non-empty fragments of an operator object, in operator order.\<close>

definition fragments :: "string \<Rightarrow> (string \<times> jv) list \<Rightarrow> ValueHolders list" where
  "fragments key ops =
     filter (\<lambda>r. prepare r \<noteq> [])
       (map (\<lambda>(operator, v). projr (createOperatorCondition key operator v)) ops)"

definition demo_table :: table where
  "demo_table = \<lparr>tableName = ''user_stats'', lastOperationResult = None, issued = []\<rparr>"

section \<open>Connection driver: MySQLDriver\<close>

text \<open>\<open>String.prototype.includes\<close>.\<close>

fun str_includes :: "string \<Rightarrow> string \<Rightarrow> bool" where
  "str_includes [] needle = (needle = [])"
| "str_includes (c # cs) needle = (take (length needle) (c # cs) = needle \<or> str_includes cs needle)"

definition connectionErrorCodes :: "string list" where
  "connectionErrorCodes =
     [''PROTOCOL_CONNECTION_LOST'', ''ECONNREFUSED'', ''ECONNRESET'', ''ETIMEDOUT'',
      ''EHOSTUNREACH'', ''ENETUNREACH'', ''EPIPE'']"

text \<open>\<open>MySQLDriver.isConnectionError\<close>: the retryable errors.\<close>

fun isConnectionError :: "js_error \<Rightarrow> bool" where
  "isConnectionError ThrownFalsy = False"
| "isConnectionError (JsError code msg) =
     ((case code of None \<Rightarrow> False | Some c \<Rightarrow> c \<in> set connectionErrorCodes)
      \<or> (case msg of None \<Rightarrow> False
                    | Some m \<Rightarrow> str_includes m ''Connection lost'' \<or> str_includes m ''Connection closed''))"

text \<open>
  The driver's fields: whether a transaction connection is pinned, the dead-pool mark, the
  rebuild lock, and the pool, represented by its generation (0 for the pool made by the
  constructor, one more for every pool created later, so the generation counts the
  rebuilds). Two further components record what a call did: the number of times the
  operation was invoked, and the delays waited. \<open>createPool\<close> only builds a handle from
  the configuration the constructor already used, and is total here.
\<close>

record driver_state =
  connection :: bool
  isPoolDead :: bool
  rebuildLock :: bool
  pool :: nat
  invoked :: nat
  waited :: "nat list"

definition new_driver :: driver_state where
  "new_driver = \<lparr>connection = False, isPoolDead = False, rebuildLock = False, pool = 0,
                  invoked = 0, waited = []\<rparr>"

text \<open>\<open>MySQLDriver.recreatePool\<close>: nothing to do while another rebuild holds the lock;
  otherwise a new pool replaces the old one and the dead mark is cleared.\<close>

definition recreatePool :: "driver_state \<Rightarrow> driver_state" where
  "recreatePool s =
     (if rebuildLock s then s
      else s\<lparr>pool := Suc (pool s), isPoolDead := False, rebuildLock := False\<rparr>)"

text \<open>
  \<open>MySQLDriver.retryOnConnectionError\<close>. The operation is given by its outcome at each
  attempt of the call (attempt 1, 2, 3): a result or a thrown error. The loop carries the
  attempt number, the count of consecutive errors and the last error.
\<close>

function retry_loop ::
  "(nat \<Rightarrow> js_error + 'a) \<Rightarrow> nat \<Rightarrow> nat \<Rightarrow> js_error \<Rightarrow> driver_state \<Rightarrow> (js_error + 'a) \<times> driver_state" where
  "retry_loop operation attempt consecutiveErrors lastError s =
     (if \<not> attempt \<le> 3 then (Inl lastError, s)
      else
        (let s1 = (if isPoolDead s \<and> attempt > 1 then recreatePool s else s);
             s2 = s1\<lparr>invoked := Suc (invoked s1)\<rparr>
         in case operation attempt of
              Inr result \<Rightarrow> (Inr result, s2\<lparr>isPoolDead := False\<rparr>)
            | Inl error \<Rightarrow>
                if \<not> isConnectionError error then (Inl error, s2)
                else
                  (let consecutiveErrors' = consecutiveErrors + 1;
                       s3 = (if consecutiveErrors' \<ge> 2 then s2\<lparr>isPoolDead := True\<rparr> else s2)
                   in if attempt = 3 then (Inl error, s3)
                      else
                        (let delay = (if attempt = 1 then 100 else 1000) in
                         retry_loop operation (attempt + 1) consecutiveErrors' error
                           (s3\<lparr>waited := waited s3 @ [delay]\<rparr>)))))"
  by pat_completeness auto
termination
  by (relation "measure (\<lambda>(operation, attempt, consecutiveErrors, lastError, s). 4 - attempt)") auto

declare retry_loop.simps [simp del]

definition retryOnConnectionError ::
  "(nat \<Rightarrow> js_error + 'a) \<Rightarrow> driver_state \<Rightarrow> (js_error + 'a) \<times> driver_state" where
  "retryOnConnectionError operation s =
     (if connection s then (operation 1, s\<lparr>invoked := Suc (invoked s)\<rparr>)
      else retry_loop operation 1 0 ThrownFalsy s)"

text \<open>
  \<open>MySQLDriver.query\<close> and \<open>MySQLDriver.execute\<close>: the statement runs on the pinned
  connection or on the pool; \<open>backend\<close> gives what the executor answers at each attempt.
  \<open>execute\<close> keeps the insert identity only when it is positive.
\<close>

definition driver_query ::
  "(nat \<Rightarrow> string \<Rightarrow> jv list \<Rightarrow> js_error + 'r list) \<Rightarrow> string \<Rightarrow> jv list \<Rightarrow> driver_state
     \<Rightarrow> (js_error + 'r list) \<times> driver_state" where
  "driver_query backend sql params s =
     retryOnConnectionError (\<lambda>attempt. backend attempt sql params) s"

definition driver_execute ::
  "(nat \<Rightarrow> string \<Rightarrow> jv list \<Rightarrow> js_error + int \<times> int) \<Rightarrow> string \<Rightarrow> jv list \<Rightarrow> driver_state
     \<Rightarrow> (js_error + ResultHeader) \<times> driver_state" where
  "driver_execute backend sql params s =
     retryOnConnectionError
       (\<lambda>attempt. case backend attempt sql params of
            Inl e \<Rightarrow> Inl e
          | Inr (affected, ident) \<Rightarrow>
              Inr \<lparr>affectedRows = affected,
                   insertId = (if ident > 0 then Some ident else None)\<rparr>) s"

text \<open>A driver whose pool was marked dead by an earlier call that failed three times with
  a connection reset.\<close>

definition ECONNRESET :: js_error where
  "ECONNRESET = JsError (Some ''ECONNRESET'') (Some ''read ECONNRESET'')"

definition exhausted_driver :: driver_state where
  "exhausted_driver =
     snd (retryOnConnectionError (\<lambda>attempt. (Inl ECONNRESET :: js_error + jv list)) new_driver)"

definition fails_twice :: "nat \<Rightarrow> js_error + jv list" where
  "fails_twice attempt = (if attempt \<le> 2 then Inl ECONNRESET else Inr [JNum 1])"

section \<open>The managed cache client: Redis\<close>

text \<open>
  The cache server is a store of string keys with an expiry time each; a key whose expiry
  has passed is absent. The three commands the lock sends are executed atomically by the
  server: \<open>SET key value NX PX ttl\<close>, and the two scripts (compare the value, then
  \<open>DEL\<close> or \<open>PEXPIRE\<close>).
\<close>

datatype command =
    SetNxPx string string int
  | EvalRelease string string
  | EvalExtend string string int


text \<open>What the network does to one command sent by the client: it is delivered and
  answered, or the call is rejected with an error before it reaches the server.\<close>

datatype outcome = Delivered | Failed js_error

record RenewRecord =
  rvalue :: string
  timer :: "nat option"
  consecutiveRenewFailures :: nat

record timer_closure =
  t_key :: string
  t_value :: string
  t_ttlMs :: int
  t_record :: nat
  t_interval :: int

text \<open>
  One process: the server's store and clock; the client's connection (whether a client can
  be obtained at all, the outcomes the network will give to the next commands, the
  dead-connection mark, and the log of the commands the server executed); and the
  lock service (owner identity, a counter standing for the random part of a lease value,
  the renew map, the renew records it shares with the timer callbacks, and the running interval timers).
\<close>

record world =
  store :: "string \<rightharpoonup> (string \<times> int)"
  now :: int
  client_ok :: bool
  net :: "outcome list"
  isConnectionDead :: bool
  delivered :: "command list"
  ownerId :: string
  nonce :: nat
  renewMap :: "string \<rightharpoonup> nat"
  records :: "nat \<rightharpoonup> RenewRecord"
  timers :: "nat \<rightharpoonup> timer_closure"
  fresh :: nat














section \<open>Distributed lease lock: MutexLock\<close>


























text \<open>The fields of the lock service, which no cache command touches, and the longest
  time the managed client waits from a given attempt on.\<close>

definition same_service :: "world \<Rightarrow> world \<Rightarrow> bool" where
  "same_service w w' =
     (renewMap w' = renewMap w \<and> records w' = records w \<and> timers w' = timers w
      \<and> fresh w' = fresh w \<and> client_ok w' = client_ok w \<and> ownerId w' = ownerId w
      \<and> nonce w' = nonce w)"











section \<open>Placeholders and well-formed compiler input\<close>

text \<open>The number of positional placeholders \<open>?\<close> in a SQL text, and statements whose
  placeholder count equals their parameter count.\<close>

definition count_ph :: "string \<Rightarrow> nat" where
  "count_ph s = length (filter (\<lambda>c. c = CHR ''?'') s)"

definition balanced :: "ValueHolders \<Rightarrow> bool" where
  "balanced r = (count_ph (prepare r) = length (holders r))"

text \<open>
  Text that the compiler copies into the statement verbatim: identifiers, the field list,
  JOIN conditions and raw fragments. Such text is well-formed when it carries exactly the
  placeholders that come with parameters: none for an identifier or a bare raw string, as
  many as the parameter list is long for a fragment with parameters.
\<close>

definition qfree :: "string \<Rightarrow> bool" where
  "qfree s = (count_ph s = 0)"

definition keys_qfree :: "(string \<times> jv) list \<Rightarrow> bool" where
  "keys_qfree kvs = list_all (\<lambda>(k, v). qfree k) kvs"

definition wf_params :: "string \<Rightarrow> jv list option \<Rightarrow> bool" where
  "wf_params sql params = (count_ph sql = (case params of None \<Rightarrow> 0 | Some ps \<Rightarrow> length ps))"

fun wf_where :: "wh \<Rightarrow> bool" where
  "wf_where WNull = True"
| "wf_where (WStr s) = qfree s"
| "wf_where (WTuple sql params) = wf_params sql params"
| "wf_where (WObj flds ands ors) =
     (keys_qfree flds
      \<and> (case ands of None \<Rightarrow> True | Some cs \<Rightarrow> list_all wf_where cs)
      \<and> (case ors of None \<Rightarrow> True | Some cs \<Rightarrow> list_all wf_where cs))"

definition wf_order :: "(string \<times> jv) list option \<Rightarrow> bool" where
  "wf_order order = (case order of None \<Rightarrow> True | Some kvs \<Rightarrow> keys_qfree kvs)"

fun wf_join_def :: "string \<times> join_def \<Rightarrow> bool" where
  "wf_join_def (tn, JoinOn c) = (qfree tn \<and> qfree c)"
| "wf_join_def (tn, JoinCfg cfg) =
     (qfree tn
      \<and> (case join_on cfg of None \<Rightarrow> True | Some c \<Rightarrow> qfree c)
      \<and> (case join_using cfg of None \<Rightarrow> True | Some us \<Rightarrow> list_all qfree us))"

definition wf_join :: "(string \<times> join_def) list option \<Rightarrow> bool" where
  "wf_join j = (case j of None \<Rightarrow> True | Some defs \<Rightarrow> list_all wf_join_def defs)"

definition wf_groupBy :: "group_by option \<Rightarrow> bool" where
  "wf_groupBy g =
     (case g of None \<Rightarrow> True | Some (GStr s) \<Rightarrow> qfree s | Some (GArr fs) \<Rightarrow> list_all qfree fs)"

definition wf_having :: "having option \<Rightarrow> bool" where
  "wf_having h =
     (case h of
        None \<Rightarrow> True
      | Some (HStr s) \<Rightarrow> qfree s
      | Some (HTuple sql params) \<Rightarrow> wf_params sql params
      | Some (HObj kvs) \<Rightarrow> keys_qfree kvs)"

text \<open>Well-formed arguments of the statement builders.\<close>

definition wf_select :: "select_params \<Rightarrow> bool" where
  "wf_select p =
     (qfree (sp_table p) \<and> (case sp_fields p of None \<Rightarrow> True | Some f \<Rightarrow> qfree f)
      \<and> wf_where (sp_where p) \<and> wf_order (sp_order p) \<and> wf_join (sp_join p)
      \<and> wf_groupBy (sp_groupBy p) \<and> wf_having (sp_having p))"

definition wf_insert :: "insert_params \<Rightarrow> bool" where
  "wf_insert p = (qfree (ip_table p) \<and> list_all keys_qfree (take 1 (ip_data p)))"

definition wf_update :: "update_params \<Rightarrow> bool" where
  "wf_update p =
     (qfree (up_table p) \<and> keys_qfree (up_data p) \<and> wf_where (up_where p)
      \<and> wf_order (up_order p))"

definition wf_delete :: "delete_params \<Rightarrow> bool" where
  "wf_delete p = (qfree (dp_table p) \<and> wf_where (dp_where p) \<and> wf_order (dp_order p))"

definition wf_count :: "count_params \<Rightarrow> bool" where
  "wf_count p =
     (qfree (cp_table p) \<and> wf_where (cp_where p) \<and> wf_join (cp_join p)
      \<and> wf_groupBy (cp_groupBy p) \<and> wf_having (cp_having p))"

definition wf_upsert :: "string \<Rightarrow> upsert_params \<Rightarrow> bool" where
  "wf_upsert tn p =
     (qfree tn \<and> keys_qfree (us_data p)
      \<and> (case us_updateData p of None \<Rightarrow> True | Some u \<Rightarrow> keys_qfree u))"

text \<open>A SELECT that uses every clause and every form of condition.\<close>

definition demo_select :: select_params where
  "demo_select =
     \<lparr>sp_table = ''users'', sp_fields = None,
      sp_where = WObj [(''age'', JObj [(''gte'', JNum 18), (''lt'', JNum 60)])]
                   (Some [WTuple ''score > ?'' (Some [JNum 5]), WStr ''active = 1''])
                   (Some [WObj [(''city'', JStr ''Beijing'')] None None,
                          WObj [(''city'', JStr ''Shanghai''), (''vip'', JBool True)] None None]),
      sp_order = Some [(''id'', JStr ''desc'')], sp_limit = Some 10, sp_offset = Some 20,
      sp_join = Some [(''orders'', JoinOn ''users.id = orders.user_id'')],
      sp_groupBy = Some (GStr ''users.id''),
      sp_having = Some (HObj [(''total'', JObj [(''in'', JArr [JNum 1, JNum 2])])])\<rparr>"

section \<open>Properties of the repository facade\<close>

lemma uniqueKeys_check_None:
  "uniqueKeys_check ks data = None \<longleftrightarrow> set ks \<subseteq> fst ` set data"
  by (induction ks) auto

lemma upsert_success_iff:
  "upsert drv params t = (Inr ok, t') \<longleftrightarrow>
     (us_uniqueKeys params \<noteq> [] \<and> set (us_uniqueKeys params) \<subseteq> fst ` set (us_data params) \<and> ok \<and>
      (\<exists>result. drv (prepare (buildUpsert (tableName t) params))
                     (holders (buildUpsert (tableName t) params)) = Inr result \<and>
         t' = t\<lparr>issued := issued t @ [(prepare (buildUpsert (tableName t) params),
                                        holders (buildUpsert (tableName t) params))],
                lastOperationResult :=
                  Some \<lparr>op_type = ''upsert'', op_affectedRows = affectedRows result,
                        op_insertId = insertId result,
                        op_action = Some (if affectedRows result = 1 then ''insert'' else ''update'')\<rparr>\<rparr>))"
proof (cases "uniqueKeys_check (us_uniqueKeys params) (us_data params)")
  case None
  then have sub: "set (us_uniqueKeys params) \<subseteq> fst ` set (us_data params)"
    by (simp add: uniqueKeys_check_None)
  show ?thesis
    using None sub
    by (cases "drv (prepare (buildUpsert (tableName t) params)) (holders (buildUpsert (tableName t) params))")
       (auto simp: upsert_def execute_def)
next
  case (Some e)
  then have "\<not> set (us_uniqueKeys params) \<subseteq> fst ` set (us_data params)"
    using uniqueKeys_check_None[of "us_uniqueKeys params" "us_data params"] by simp
  with Some show ?thesis by (auto simp: upsert_def)
qed




text \<open>
  Claim C10. For a successful \<open>upsert\<close> call the recorded action is insert exactly when
  the backend reported one affected row; every other count, zero included, is recorded as
  update.
\<close>

theorem upsert_action_insert_only_for_one:
  assumes "upsert drv params t = (Inr ok, t')"
  shows "\<exists>result r.
            drv (prepare (buildUpsert (tableName t) params))
                (holders (buildUpsert (tableName t) params)) = Inr result \<and>
            lastOperationResult t' = Some r \<and>
            (op_action r = Some ''insert'' \<longleftrightarrow> affectedRows result = 1) \<and>
            (affectedRows result \<noteq> 1 \<longrightarrow> op_action r = Some ''update'') \<and>
            (affectedRows result = 0 \<longrightarrow> op_action r = Some ''update'')"
  using assms unfolding upsert_success_iff by auto

theorem upsert_action_insert_only_for_one_witness:
  "\<exists>t'. upsert (\<lambda>sql params. Inr \<lparr>affectedRows = 0, insertId = None\<rparr>)
             \<lparr>us_data = [(''user_id'', JNum 123), (''login_count'', JNum 1)],
              us_uniqueKeys = [''user_id''], us_updateData = None\<rparr> demo_table = (Inr True, t')
         \<and> map_option op_action (lastOperationResult t') = Some (Some ''update'')"
proof -
  let ?p = "\<lparr>us_data = [(''user_id'', JNum 123), (''login_count'', JNum 1)],
              us_uniqueKeys = [''user_id''], us_updateData = None\<rparr>"
  let ?d0 = "\<lambda>(sql::string) (params::jv list). (Inr \<lparr>affectedRows = 0, insertId = None\<rparr> :: js_error + ResultHeader)"
  obtain t0 where h: "upsert ?d0 ?p demo_table = (Inr True, t0)"
    by (simp add: upsert_success_iff)
  from upsert_action_insert_only_for_one[OF h]
  have "map_option op_action (lastOperationResult t0) = Some (Some ''update'')" by auto
  then show ?thesis using h by blast
qed


lemma buildUpdate_loop_unresolvable:
  "\<forall>(k, v) \<in> set data. prepare (createDataFilter k v) = [] \<Longrightarrow>
   buildUpdate_loop data parts hs = (parts, hs)"
  by (induction data arbitrary: parts hs) auto

lemma buildUpdate_unresolvable:
  assumes "\<forall>(k, v) \<in> set (tu_data params). prepare (createDataFilter k v) = []"
  shows "buildUpdate \<lparr>up_table = tableName t, up_data = tu_data params,
                        up_where = tu_where params, up_order = tu_order params,
                        up_limit = tu_limit params\<rparr> = Inl (Error ''No fields to update'')"
proof -
  have loop: "buildUpdate_loop (tu_data params) [] [] = ([], [])"
    by (rule buildUpdate_loop_unresolvable[OF assms])
  show ?thesis
    unfolding buildUpdate_def by (simp add: loop)
qed

text \<open>
  Claim C6. When no entry of the data resolves to an assignment, \<open>update\<close> returns
  success, records an update result with zero affected rows, hands nothing to the driver,
  and the compiler's error does not reach the caller.
\<close>

theorem update_without_assignments:
  assumes "\<forall>(k, v) \<in> set (tu_data params). prepare (createDataFilter k v) = []"
  shows "update drv params t =
           (Inr True,
            t\<lparr>lastOperationResult :=
                Some \<lparr>op_type = ''update'', op_affectedRows = 0,
                      op_insertId = None, op_action = None\<rparr>\<rparr>)"
  by (simp add: update_def buildUpdate_unresolvable[OF assms] update_catch_def)

theorem update_without_assignments_witness:
  "update (\<lambda>sql params. Inr \<lparr>affectedRows = 5, insertId = None\<rparr>)
          \<lparr>tu_data = [(''name'', JUndef), (''age'', JObj []), (''tags'', JArr [])],
                  tu_where = WObj [(''id'', JNum 1)] None None, tu_order = None, tu_limit = None\<rparr>
        demo_table =
        (Inr True, demo_table\<lparr>lastOperationResult :=
                Some \<lparr>op_type = ''update'', op_affectedRows = 0,
                      op_insertId = None, op_action = None\<rparr>\<rparr>)"
proof -
  have h: "\<forall>(k, v) \<in> set (tu_data \<lparr>tu_data = [(''name'', JUndef), (''age'', JObj []), (''tags'', JArr [])],
                  tu_where = WObj [(''id'', JNum 1)] None None, tu_order = None, tu_limit = None\<rparr>).
        prepare (createDataFilter k v) = []"
    by (simp add: createDataFilter_def is_plain_def emptyVH_def)
  show ?thesis
    using h update_without_assignments[OF h, of "(\<lambda>sql params. Inr \<lparr>affectedRows = 5, insertId = None\<rparr>)" demo_table] by simp
qed


lemma sameKeys_iff: "sameKeys keys firstKeys \<longleftrightarrow> keys = firstKeys"
proof -
  have "list_all (\<lambda>(key, index). key = firstKeys ! index) (zip keys [0..<length keys])
        \<longleftrightarrow> (\<forall>i < length keys. keys ! i = firstKeys ! i)"
    by (auto simp: list_all_length)
  then show ?thesis
    using list_eq_iff_nth_eq[of keys firstKeys] by (auto simp: sameKeys_def)
qed

lemma sort_eq_iff_set_eq:
  assumes "distinct xs" "distinct ys"
  shows "sort xs = sort ys \<longleftrightarrow> set xs = set (ys :: string list)"
proof
  assume "sort xs = sort ys"
  then have "set (sort xs) = set (sort ys)" by simp
  then show "set xs = set ys" by simp
next
  assume "set xs = set ys"
  with assms have "mset xs = mset ys" by (simp add: set_eq_iff_mset_eq_distinct)
  then show "sort xs = sort ys"
    by (metis mset_sort sorted_sort properties_for_sort)
qed

lemma adds_check_first_mismatch:
  assumes "n < length rest"
      and "sort (map fst (rest ! n)) \<noteq> firstKeys"
      and "\<forall>j < n. sort (map fst (rest ! j)) = firstKeys"
  shows "adds_check firstKeys rest k =
           Some (Error (''Record at index '' @ show_nat (k + n) @ '' has different fields. ''
                     @ ''Expected: ['' @ join '', '' firstKeys @ ''], ''
                     @ ''Got: ['' @ join '', '' (sort (map fst (rest ! n))) @ '']''))"
  using assms
proof (induction rest arbitrary: n k)
  case Nil
  then show ?case by simp
next
  case (Cons r rest)
  show ?case
  proof (cases n)
    case 0
    with Cons.prems show ?thesis by (simp add: sameKeys_iff)
  next
    case (Suc m)
    have r: "sort (map fst r) = firstKeys" using Cons.prems(3) Suc by auto
    have "adds_check firstKeys rest (Suc k) =
           Some (Error (''Record at index '' @ show_nat (Suc k + m) @ '' has different fields. ''
                     @ ''Expected: ['' @ join '', '' firstKeys @ ''], ''
                     @ ''Got: ['' @ join '', '' (sort (map fst (rest ! m))) @ '']''))"
      using Cons.prems Suc by (intro Cons.IH) auto
    then show ?thesis using r Suc by (simp add: sameKeys_iff)
  qed
qed

text \<open>
  Claim C8. When \<open>i\<close> is the first record whose field set differs from that of record 0,
  \<open>adds\<close> throws an error naming \<open>i\<close>, the expected (sorted) field list and the actual
  one, and the table is unchanged: no statement was handed to the driver.
\<close>

theorem adds_rejects_first_mismatch:
  assumes dist: "\<forall>r \<in> set data. distinct (map fst r)"
      and i: "i < length data"
      and diff: "fst ` set (data ! i) \<noteq> fst ` set (data ! 0)"
      and first: "\<forall>j < i. fst ` set (data ! j) = fst ` set (data ! 0)"
  shows "adds drv data t =
           (Inl (Error (''Record at index '' @ show_nat i @ '' has different fields. ''
                     @ ''Expected: ['' @ join '', '' (sort (map fst (data ! 0))) @ ''], ''
                     @ ''Got: ['' @ join '', '' (sort (map fst (data ! i))) @ '']'')), t)"
proof -
  from i diff obtain d ds where data: "data = d # ds" and ipos: "0 < i"
    by (cases data; cases i) auto
  then obtain n where n: "i = Suc n" by (cases i) auto
  have eq: "\<And>j. j < length data \<Longrightarrow>
     (sort (map fst (data ! j)) = sort (map fst d)) = (fst ` set (data ! j) = fst ` set d)"
    using dist data sort_eq_iff_set_eq[of "map fst (data ! j)" "map fst d" for j]
    by (metis list.set_intros(1) nth_mem set_map)
  have 1: "n < length ds" using i n data by simp
  have 2: "sort (map fst (ds ! n)) \<noteq> sort (map fst d)"
    using eq[of i] i diff n data by simp
  have 3: "\<forall>j < n. sort (map fst (ds ! j)) = sort (map fst d)"
  proof (intro allI impI)
    fix j assume "j < n"
    then have "Suc j < i" "Suc j < length data" using n i by auto
    then show "sort (map fst (ds ! j)) = sort (map fst d)"
      using eq[of "Suc j"] first[rule_format, of "Suc j"] data by simp
  qed
  have "adds_check (sort (map fst d)) ds 1 =
      Some (Error (''Record at index '' @ show_nat (1 + n) @ '' has different fields. ''
                     @ ''Expected: ['' @ join '', '' (sort (map fst d)) @ ''], ''
                     @ ''Got: ['' @ join '', '' (sort (map fst (ds ! n))) @ '']''))"
    by (rule adds_check_first_mismatch[OF 1 2 3])
  then show ?thesis using data n by (simp add: adds_def)
qed


theorem adds_rejects_first_mismatch_witness:
  "adds (\<lambda>sql params. Inr \<lparr>affectedRows = 5, insertId = None\<rparr>)
      [[(''a'', JNum 1), (''b'', JNum 2)], [(''b'', JNum 3), (''a'', JNum 4)],
             [(''a'', JNum 5), (''c'', JNum 6)], [(''z'', JNum 7)]] demo_table =
     (Inl (Error ''Record at index 2 has different fields. Expected: [a, b], Got: [a, c]''),
      demo_table)"
proof -
  let ?data = "[[(''a'', JNum 1), (''b'', JNum 2)], [(''b'', JNum 3), (''a'', JNum 4)],
             [(''a'', JNum 5), (''c'', JNum 6)], [(''z'', JNum 7)]]"
  have d: "\<forall>r \<in> set ?data. distinct (map fst r)" by simp
  have i: "(2::nat) < length ?data" by simp
  have ne: "fst ` set (?data ! 2) \<noteq> fst ` set (?data ! 0)"
    by (simp add: doubleton_eq_iff)
  have first: "\<forall>j < (2::nat). fst ` set (?data ! j) = fst ` set (?data ! 0)"
  proof (intro allI impI)
    fix j :: nat assume "j < 2"
    then have "j = 0 \<or> j = 1" by auto
    then show "fst ` set (?data ! j) = fst ` set (?data ! 0)" by auto
  qed
  have s0: "sort (map fst (?data ! 0)) = [''a'', ''b'']" by simp
  have s2: "sort (map fst (?data ! 2)) = [''a'', ''c'']" by simp
  have n2: "show_nat 2 = ''2''" by (simp add: show_nat.simps)
  show ?thesis
    using adds_rejects_first_mismatch[OF d i ne first, of "(\<lambda>sql params. Inr \<lparr>affectedRows = 5, insertId = None\<rparr>)" demo_table]
    unfolding s0 s2 n2 by simp
qed


section \<open>Properties of the query compiler\<close>

lemma createFilter_loop_fragments:
  assumes "\<forall>(operator, v) \<in> set ops. \<exists>r. createOperatorCondition key operator v = Inr r"
  shows "createFilter_loop key ops cs hs =
           Inr (cs @ map prepare (fragments key ops), hs @ concat (map holders (fragments key ops)))"
  using assms
proof (induction ops arbitrary: cs hs)
  case Nil
  then show ?case by (simp add: fragments_def)
next
  case (Cons a ops)
  obtain operator v where a: "a = (operator, v)" by (cases a)
  from Cons.prems a obtain r where r: "createOperatorCondition key operator v = Inr r" by auto
  have rest: "\<forall>(operator, v) \<in> set ops. \<exists>r. createOperatorCondition key operator v = Inr r"
    using Cons.prems by simp
  show ?case
    using Cons.IH[OF rest] a r by (simp add: fragments_def)
qed


text \<open>
  Claim C9 (as amended). Compiling \<open>{age: {gte: 18, lt: 60}}\<close> yields the parenthesised
  pair of comparisons with parameters 18, 60. In general, when no operator of an operator
  object throws, the object compiles to the fragments of the operators that yield one, in
  operator order, joined with AND, and parenthesised exactly when more than one fragment is
  present; the parameters are those of the fragments, in order.
\<close>

theorem createFilter_operator_object:
  "((\<forall>(operator, v) \<in> set ops. \<exists>r. createOperatorCondition key operator v = Inr r) \<longrightarrow>
     createFilter key (JObj ops) =
       Inr (if fragments key ops = [] then emptyVH
            else \<lparr>prepare = (if length (fragments key ops) > 1
                              then ''('' @ join '' AND '' (map prepare (fragments key ops)) @ '')''
                              else prepare (hd (fragments key ops))),
                  holders = concat (map holders (fragments key ops))\<rparr>))
   \<and> createFilter ''age'' (JObj [(''gte'', JNum 18), (''lt'', JNum 60)]) =
         Inr \<lparr>prepare = ''('' @ escapeIdentifier ''age'' @ '' >= ? AND ''
                            @ escapeIdentifier ''age'' @ '' < ?)'',
              holders = [JNum 18, JNum 60]\<rparr>"
proof (intro conjI impI)
  assume ok: "\<forall>(operator, v) \<in> set ops. \<exists>r. createOperatorCondition key operator v = Inr r"
  show "createFilter key (JObj ops) =
       Inr (if fragments key ops = [] then emptyVH
            else \<lparr>prepare = (if length (fragments key ops) > 1
                              then ''('' @ join '' AND '' (map prepare (fragments key ops)) @ '')''
                              else prepare (hd (fragments key ops))),
                  holders = concat (map holders (fragments key ops))\<rparr>)"
    using createFilter_loop_fragments[OF ok, of "[]" "[]"]
    by (simp add: createFilter_def is_plain_def hd_map)
next
  show "createFilter ''age'' (JObj [(''gte'', JNum 18), (''lt'', JNum 60)]) =
         Inr \<lparr>prepare = ''('' @ escapeIdentifier ''age'' @ '' >= ? AND ''
                            @ escapeIdentifier ''age'' @ '' < ?)'',
              holders = [JNum 18, JNum 60]\<rparr>"
    by (simp add: createFilter_def is_plain_def createOperatorCondition_def opSql_def OperatorMap_def)
qed

theorem createFilter_operator_object_witness:
  "createFilter ''age'' (JObj [(''gte'', JNum 18), (''foo'', JNum 1), (''in'', JArr [JNum 1, JNum 2])]) =
       Inr \<lparr>prepare = ''(`age` >= ? AND `age` IN (?, ?))'', holders = [JNum 18, JNum 1, JNum 2]\<rparr>"
proof -
  have h: "\<forall>(operator, v) \<in> set [(''gte'', JNum 18), (''foo'', JNum 1), (''in'', JArr [JNum 1, JNum 2])].
       \<exists>r. createOperatorCondition ''age'' operator v = Inr r"
    by (simp add: createOperatorCondition_def)
  have f: "fragments ''age'' [(''gte'', JNum 18), (''foo'', JNum 1), (''in'', JArr [JNum 1, JNum 2])] =
      [\<lparr>prepare = ''`age` >= ?'', holders = [JNum 18]\<rparr>,
       \<lparr>prepare = ''`age` IN (?, ?)'', holders = [JNum 1, JNum 2]\<rparr>]"
    by (simp add: fragments_def createOperatorCondition_def opSql_def OperatorMap_def
        escapeIdentifier_def emptyVH_def)
  show ?thesis
    using h createFilter_operator_object[of "[(''gte'', JNum 18), (''foo'', JNum 1), (''in'', JArr [JNum 1, JNum 2])]" "''age''"]
    by (simp add: f)
qed

text \<open>
  Claim C9 as stated fails where an operator yields no fragment: two operators are present,
  one fragment results, and there are no parentheses.
\<close>

theorem createFilter_parentheses_counterexample:
  "length [(''gte'', JNum 18), (''isNull'', JUndef)] > 1 \<and>
   createFilter ''age'' (JObj [(''gte'', JNum 18), (''isNull'', JUndef)]) =
     Inr \<lparr>prepare = ''`age` >= ?'', holders = [JNum 18]\<rparr>"
  by (simp add: createFilter_def is_plain_def createOperatorCondition_def opSql_def OperatorMap_def
      escapeIdentifier_def emptyVH_def)


subsection \<open>Placeholders and parameters\<close>

lemma count_ph_Nil [simp]: "count_ph [] = 0"
  by (simp add: count_ph_def)

lemma count_ph_Cons [simp]: "count_ph (c # s) = (if c = CHR ''?'' then 1 else 0) + count_ph s"
  by (simp add: count_ph_def)

lemma count_ph_append [simp]: "count_ph (s @ t) = count_ph s + count_ph t"
  by (simp add: count_ph_def)

lemma count_ph_join:
  "count_ph sep = 0 \<Longrightarrow> count_ph (join sep xs) = sum_list (map count_ph xs)"
  by (induction sep xs rule: join.induct) simp_all

lemma count_ph_join_marks: "count_ph (join '', '' (map (\<lambda>_. ''?'') vs)) = length vs"
proof -
  have "sum_list (map (\<lambda>x. Suc 0) vs) = length vs" by (induction vs) simp_all
  then show ?thesis by (simp add: count_ph_join comp_def)
qed

lemma count_ph_escapeIdentifier [simp]: "count_ph (escapeIdentifier s) = count_ph s"
  by (simp add: escapeIdentifier_def)

lemma digit_not_mark: "n < 10 \<Longrightarrow> ''0123456789'' ! n \<noteq> CHR ''?''"
proof -
  assume "n < 10"
  then have "n \<in> {0,1,2,3,4,5,6,7,8,9}" by auto
  then show ?thesis by auto
qed

lemma count_ph_show_nat [simp]: "count_ph (show_nat n) = 0"
proof (induction n rule: show_nat.induct)
  case (1 n)
  show ?case
  proof (cases "n < 10")
    case True
    then show ?thesis using digit_not_mark[of n] by (subst show_nat.simps) simp
  next
    case False
    then show ?thesis
      using 1 digit_not_mark[of "n mod 10"] by (subst show_nat.simps) simp
  qed
qed

lemma count_ph_show_int [simp]: "count_ph (show_int i) = 0"
  by (simp add: show_int_def)

lemma count_ph_opSql [simp]: "count_ph (opSql operator) = 0"
proof (cases "map_of OperatorMap operator")
  case None
  then show ?thesis by (simp add: opSql_def)
next
  case (Some s)
  then have "(operator, s) \<in> set OperatorMap" by (rule map_of_SomeD)
  then have "count_ph s = 0" by (auto simp: OperatorMap_def)
  with Some show ?thesis by (simp add: opSql_def)
qed

lemma balanced_emptyVH [simp]: "balanced emptyVH"
  by (simp add: balanced_def emptyVH_def)

lemma createOperatorCondition_balanced:
  assumes "qfree key" and "createOperatorCondition key operator v = Inr r"
  shows "balanced r"
  using assms unfolding createOperatorCondition_def Let_def qfree_def balanced_def
  by (auto simp add: count_ph_join_marks emptyVH_def simp del: list.set set_simps
      split: if_splits jv.splits list.splits)


lemma createFilter_loop_balanced:
  assumes "qfree key"
      and "sum_list (map count_ph conditions) = length hs"
      and "createFilter_loop key ops conditions hs = Inr (cs', hs')"
  shows "sum_list (map count_ph cs') = length hs'"
  using assms
proof (induction ops arbitrary: conditions hs)
  case Nil
  then show ?case by simp
next
  case (Cons a ops)
  obtain operator v where a: "a = (operator, v)" by (cases a)
  from Cons.prems(3) a obtain r where r: "createOperatorCondition key operator v = Inr r"
    by (cases "createOperatorCondition key operator v") auto
  have br: "count_ph (prepare r) = length (holders r)"
    using createOperatorCondition_balanced[OF Cons.prems(1) r] by (simp add: balanced_def)
  show ?case
  proof (cases "prepare r \<noteq> []")
    case True
    then have "createFilter_loop key ops (conditions @ [prepare r]) (hs @ holders r) = Inr (cs', hs')"
      using Cons.prems(3) a r by simp
    moreover have "sum_list (map count_ph (conditions @ [prepare r])) = length (hs @ holders r)"
      using Cons.prems(2) br by simp
    ultimately show ?thesis using Cons.IH Cons.prems(1) by blast
  next
    case False
    then have "createFilter_loop key ops conditions hs = Inr (cs', hs')"
      using Cons.prems(3) a r by simp
    then show ?thesis using Cons.IH Cons.prems(1,2) by blast
  qed
qed

lemma createFilter_balanced:
  assumes "qfree key" and "createFilter key v = Inr r"
  shows "balanced r"
proof -
  consider (null) "v = JNull" | (undef) "v \<noteq> JNull" "v = JUndef"
    | (plain) "v \<noteq> JNull" "v \<noteq> JUndef" "is_plain v"
    | (obj) "v \<noteq> JNull" "v \<noteq> JUndef" "\<not> is_plain v" by blast
  then show ?thesis
  proof cases
    case null
    with assms show ?thesis by (auto simp: createFilter_def balanced_def qfree_def)
  next
    case undef
    with assms show ?thesis by (auto simp: createFilter_def)
  next
    case plain
    with assms show ?thesis by (auto simp: createFilter_def balanced_def qfree_def)
  next
    case obj
    with assms(2) obtain cs hs where
      loop: "createFilter_loop key (object_entries v) [] [] = Inr (cs, hs)"
      by (cases "createFilter_loop key (object_entries v) [] []") (auto simp: createFilter_def)
    have inv: "sum_list (map count_ph cs) = length hs"
      using createFilter_loop_balanced[OF assms(1) _ loop] by simp
    show ?thesis
    proof (cases cs)
      case Nil
      with obj loop assms(2) show ?thesis by (auto simp: createFilter_def)
    next
      case (Cons c cs1)
      show ?thesis
      proof (cases cs1)
        case Nil
        with Cons obj loop assms(2) inv show ?thesis
          by (auto simp: createFilter_def balanced_def)
      next
        case (Cons c2 cs2)
        with \<open>cs = c # cs1\<close> obj loop assms(2) inv show ?thesis
          by (auto simp: createFilter_def balanced_def count_ph_join)
      qed
    qed
  qed
qed

lemma createDataFilter_balanced:
  assumes "qfree key"
  shows "balanced (createDataFilter key v)"
  using assms
  by (auto simp: createDataFilter_def Let_def balanced_def qfree_def emptyVH_def
      split: list.splits)

lemma createFieldConditions_loop_balanced:
  assumes "keys_qfree kvs"
      and "sum_list (map count_ph conditions) = length hs"
      and "createFieldConditions_loop kvs conditions hs = Inr r"
  shows "balanced r"
  using assms
proof (induction kvs arbitrary: conditions hs)
  case Nil
  then show ?case by (auto simp: balanced_def count_ph_join)
next
  case (Cons a kvs)
  obtain key v where a: "a = (key, v)" by (cases a)
  have qk: "qfree key" and rest: "keys_qfree kvs"
    using Cons.prems(1) a by (simp_all add: keys_qfree_def)
  from Cons.prems(3) a obtain r1 where r1: "createFilter key v = Inr r1"
    by (cases "createFilter key v") auto
  have br: "count_ph (prepare r1) = length (holders r1)"
    using createFilter_balanced[OF qk r1] by (simp add: balanced_def)
  show ?case
  proof (cases "prepare r1 \<noteq> []")
    case True
    then have "createFieldConditions_loop kvs (conditions @ [prepare r1]) (hs @ holders r1) = Inr r"
      using Cons.prems(3) a r1 by simp
    moreover have "sum_list (map count_ph (conditions @ [prepare r1])) = length (hs @ holders r1)"
      using Cons.prems(2) br by simp
    ultimately show ?thesis using Cons.IH rest by blast
  next
    case False
    then have "createFieldConditions_loop kvs conditions hs = Inr r"
      using Cons.prems(3) a r1 by simp
    then show ?thesis using Cons.IH rest Cons.prems(2) by blast
  qed
qed

lemma keys_qfree_filter: "keys_qfree kvs \<Longrightarrow> keys_qfree (filter P kvs)"
  by (induction kvs) (auto simp: keys_qfree_def)

lemma count_ph_bracket [simp]: "count_ph (bracket s) = count_ph s"
  by (simp add: bracket_def)


lemma createAndConditions_balanced:
  assumes "\<And>c r. c \<in> set cs \<Longrightarrow> createWhere c = Inr r \<Longrightarrow> balanced r"
      and "sum_list (map count_ph parts) = length hs"
      and "createAndConditions cs parts hs = Inr r"
  shows "balanced r"
  using assms
proof (induction cs arbitrary: parts hs)
  case Nil
  then show ?case by (auto simp: balanced_def count_ph_join)
next
  case (Cons c cs)
  from Cons.prems(3) obtain r1 where r1: "createWhere c = Inr r1"
    by (cases "createWhere c") auto
  have br: "count_ph (prepare r1) = length (holders r1)"
    using Cons.prems(1)[of c r1] r1 by (simp add: balanced_def)
  have ih: "\<And>parts hs. sum_list (map count_ph parts) = length hs \<Longrightarrow>
              createAndConditions cs parts hs = Inr r \<Longrightarrow> balanced r"
    using Cons.IH Cons.prems(1) by (metis list.set_intros(2))
  show ?case
  proof (cases "prepare r1 \<noteq> []")
    case True
    let ?part = "if hasOR c then bracket (prepare r1) else prepare r1"
    have "createAndConditions cs (parts @ [?part]) (hs @ holders r1) = Inr r"
      using Cons.prems(3) r1 True by (simp add: Let_def)
    moreover have "sum_list (map count_ph (parts @ [?part])) = length (hs @ holders r1)"
      using Cons.prems(2) br by simp
    ultimately show ?thesis using ih by blast
  next
    case False
    then have "createAndConditions cs parts hs = Inr r"
      using Cons.prems(3) r1 by simp
    then show ?thesis using ih Cons.prems(2) by blast
  qed
qed

lemma createOrConditions_balanced:
  assumes "\<And>c r. c \<in> set cs \<Longrightarrow> createWhere c = Inr r \<Longrightarrow> balanced r"
      and "sum_list (map count_ph parts) = length hs"
      and "createOrConditions cs parts hs = Inr r"
  shows "balanced r"
  using assms
proof (induction cs arbitrary: parts hs)
  case Nil
  then show ?case by (auto simp: balanced_def count_ph_join)
next
  case (Cons c cs)
  from Cons.prems(3) obtain r1 where r1: "createWhere c = Inr r1"
    by (cases "createWhere c") auto
  have br: "count_ph (prepare r1) = length (holders r1)"
    using Cons.prems(1)[of c r1] r1 by (simp add: balanced_def)
  have ih: "\<And>parts hs. sum_list (map count_ph parts) = length hs \<Longrightarrow>
              createOrConditions cs parts hs = Inr r \<Longrightarrow> balanced r"
    using Cons.IH Cons.prems(1) by (metis list.set_intros(2))
  show ?case
  proof (cases "prepare r1 \<noteq> []")
    case True
    let ?part = "if keyCount c > 1 \<or> hasAND c then bracket (prepare r1) else prepare r1"
    have "createOrConditions cs (parts @ [?part]) (hs @ holders r1) = Inr r"
      using Cons.prems(3) r1 True by (simp add: Let_def)
    moreover have "sum_list (map count_ph (parts @ [?part])) = length (hs @ holders r1)"
      using Cons.prems(2) br by simp
    ultimately show ?thesis using ih by blast
  next
    case False
    then have "createOrConditions cs parts hs = Inr r"
      using Cons.prems(3) r1 by simp
    then show ?thesis using ih Cons.prems(2) by blast
  qed
qed

text \<open>The three steps of \<open>createLogicalWhere\<close>, as one combination of three results.\<close>

lemma logical_combination_balanced:
  assumes "balanced r1" "balanced r2" "balanced r3"
  shows "balanced
     (let conditions1 = (if prepare r1 \<noteq> [] then [prepare r1] else []);
          holders1 = (if prepare r1 \<noteq> [] then holders r1 else []);
          conditions2 = (if prepare r2 \<noteq> [] then conditions1 @ [prepare r2] else conditions1);
          holders2 = (if prepare r2 \<noteq> [] then holders1 @ holders r2 else holders1);
          orPart = (if conditions2 \<noteq> [] then bracket (prepare r3) else prepare r3);
          conditions3 = (if prepare r3 \<noteq> [] then conditions2 @ [orPart] else conditions2);
          holders3 = (if prepare r3 \<noteq> [] then holders2 @ holders r3 else holders2)
      in \<lparr>prepare = join '' AND '' conditions3, holders = holders3\<rparr>)"
  using assms by (simp add: balanced_def Let_def count_ph_join)

lemma createWhere_balanced:
  "wf_where w \<Longrightarrow> createWhere w = Inr r \<Longrightarrow> balanced r"
proof (induction w arbitrary: r)
  case WNull
  then show ?case by simp
next
  case (WStr s)
  then show ?case by (auto simp: balanced_def qfree_def)
next
  case (WTuple sql params)
  then show ?case by (auto simp: balanced_def wf_params_def split: option.splits)
next
  case (WObj flds ands ors)
  show ?case
  proof (cases "flds = [] \<and> ands = None \<and> ors = None")
    case True
    with WObj.prems show ?thesis by auto
  next
    case False
    define fc where "fc = filter (\<lambda>(k, v). k \<noteq> ''AND'' \<and> k \<noteq> ''OR'') flds"
    define R1 where "R1 = (if fc \<noteq> [] then createFieldConditions fc else Inr emptyVH)"
    define R2 where "R2 = (case ands of None \<Rightarrow> Inr emptyVH
                    | Some andConditions \<Rightarrow>
                        if andConditions \<noteq> [] then createAndConditions andConditions [] []
                        else Inr emptyVH)"
    define R3 where "R3 = (case ors of None \<Rightarrow> Inr emptyVH
                         | Some orConditions \<Rightarrow>
                             if orConditions \<noteq> [] then createOrConditions orConditions [] []
                             else Inr emptyVH)"
    have eq: "createWhere (WObj flds ands ors) =
       (case R1 of Inl e \<Rightarrow> Inl e | Inr r1 \<Rightarrow>
         (case R2 of Inl e \<Rightarrow> Inl e | Inr r2 \<Rightarrow>
           (case R3 of Inl e \<Rightarrow> Inl e | Inr r3 \<Rightarrow>
              Inr (let conditions1 = (if prepare r1 \<noteq> [] then [prepare r1] else []);
          holders1 = (if prepare r1 \<noteq> [] then holders r1 else []);
          conditions2 = (if prepare r2 \<noteq> [] then conditions1 @ [prepare r2] else conditions1);
          holders2 = (if prepare r2 \<noteq> [] then holders1 @ holders r2 else holders1);
          orPart = (if conditions2 \<noteq> [] then bracket (prepare r3) else prepare r3);
          conditions3 = (if prepare r3 \<noteq> [] then conditions2 @ [orPart] else conditions2);
          holders3 = (if prepare r3 \<noteq> [] then holders2 @ holders r3 else holders2)
      in \<lparr>prepare = join '' AND '' conditions3, holders = holders3\<rparr>))))"
      apply (subst createWhere.simps(4))
      apply (simp only: False if_False)
      unfolding R1_def R2_def R3_def fc_def Let_def
      apply (rule refl)
      done
    from WObj.prems(2) eq obtain r1 r2 r3 where
      R1: "R1 = Inr r1" and R2: "R2 = Inr r2" and R3: "R3 = Inr r3" and
      r: "r = (let conditions1 = (if prepare r1 \<noteq> [] then [prepare r1] else []);
          holders1 = (if prepare r1 \<noteq> [] then holders r1 else []);
          conditions2 = (if prepare r2 \<noteq> [] then conditions1 @ [prepare r2] else conditions1);
          holders2 = (if prepare r2 \<noteq> [] then holders1 @ holders r2 else holders1);
          orPart = (if conditions2 \<noteq> [] then bracket (prepare r3) else prepare r3);
          conditions3 = (if prepare r3 \<noteq> [] then conditions2 @ [orPart] else conditions2);
          holders3 = (if prepare r3 \<noteq> [] then holders2 @ holders r3 else holders2)
      in \<lparr>prepare = join '' AND '' conditions3, holders = holders3\<rparr>)"
      by (cases R1; cases R2; cases R3) auto
    have kq: "keys_qfree fc"
      using WObj.prems(1) unfolding fc_def by (simp add: keys_qfree_filter)
    have b1: "balanced r1"
      using R1 kq createFieldConditions_loop_balanced[of fc "[]" "[]" r1]
      by (auto simp: R1_def createFieldConditions_def split: if_splits)
    have b2: "balanced r2"
    proof (cases ands)
      case None
      with R2 show ?thesis by (auto simp: R2_def)
    next
      case (Some cs)
      have ih: "\<And>c r. c \<in> set cs \<Longrightarrow> createWhere c = Inr r \<Longrightarrow> balanced r"
        using WObj.IH(1)[of cs] Some WObj.prems(1) by (auto simp: list_all_iff)
      show ?thesis
        using R2 Some createAndConditions_balanced[of cs "[]" "[]" r2] ih
        by (auto simp: R2_def split: if_splits)
    qed
    have b3: "balanced r3"
    proof (cases ors)
      case None
      with R3 show ?thesis by (auto simp: R3_def)
    next
      case (Some cs)
      have ih: "\<And>c r. c \<in> set cs \<Longrightarrow> createWhere c = Inr r \<Longrightarrow> balanced r"
        using WObj.IH(2)[of cs] Some WObj.prems(1) by (auto simp: list_all_iff)
      show ?thesis
        using R3 Some createOrConditions_balanced[of cs "[]" "[]" r3] ih
        by (auto simp: R3_def split: if_splits)
    qed
    show ?thesis
      unfolding r by (rule logical_combination_balanced[OF b1 b2 b3])
  qed
qed


lemma createOrder_loop_qfree:
  assumes "keys_qfree kvs" and "\<forall>p \<in> set parts. count_ph p = 0"
  shows "\<forall>p \<in> set (createOrder_loop kvs parts). count_ph p = 0"
  using assms
proof (induction kvs arbitrary: parts)
  case Nil
  then show ?case by simp
next
  case (Cons a kvs)
  obtain key v where a: "a = (key, v)" by (cases a)
  have qk: "count_ph key = 0" and rest: "keys_qfree kvs"
    using Cons.prems(1) a by (simp_all add: keys_qfree_def qfree_def)
  show ?case
  proof (cases v)
    case (JStr s)
    show ?thesis
    proof (cases "toUpperCase s = ''ASC'' \<or> toUpperCase s = ''DESC''")
      case True
      then have d: "count_ph (toUpperCase s) = 0" by auto
      have "\<forall>p \<in> set (parts @ [escapeIdentifier key @ '' '' @ toUpperCase s]). count_ph p = 0"
        using Cons.prems(2) qk d by simp
      from Cons.IH[OF rest this] show ?thesis using a JStr True by (simp add: Let_def)
    next
      case False
      then show ?thesis using a JStr Cons.IH[OF rest Cons.prems(2)] by (simp add: Let_def)
    qed
  qed (use a Cons.IH[OF rest Cons.prems(2)] in simp_all)
qed

lemma count_ph_createOrder: "wf_order order \<Longrightarrow> count_ph (createOrder order) = 0"
proof (cases order)
  case None
  then show ?thesis by (simp add: createOrder_def)
next
  case (Some kvs)
  assume "wf_order order"
  then have "keys_qfree kvs" using Some by (simp add: wf_order_def)
  from createOrder_loop_qfree[OF this, of "[]"] show ?thesis
    using Some by (simp add: createOrder_def count_ph_join)
qed

lemma count_ph_validTypes: "ty \<in> set validTypes \<Longrightarrow> count_ph ty = 0"
  by (auto simp: validTypes_def)

lemma createJoin_loop_qfree:
  assumes "list_all wf_join_def defs" and "\<forall>p \<in> set parts. count_ph p = 0"
      and "createJoin_loop defs parts = Inr s"
  shows "count_ph s = 0"
  using assms
proof (induction defs arbitrary: parts)
  case Nil
  then show ?case by (auto simp: count_ph_join)
next
  case (Cons d rest)
  obtain tn jd where d: "d = (tn, jd)" by (cases d)
  have rest: "list_all wf_join_def rest" using Cons.prems(1) by simp
  have step: "\<And>p. count_ph p = 0 \<Longrightarrow> createJoin_loop rest (parts @ [p]) = Inr s \<Longrightarrow> count_ph s = 0"
  proof -
    fix p assume "count_ph p = 0" and run: "createJoin_loop rest (parts @ [p]) = Inr s"
    then have "\<forall>q \<in> set (parts @ [p]). count_ph q = 0" using Cons.prems(2) by simp
    from Cons.IH[OF rest this run] show "count_ph s = 0" .
  qed
  show ?case
  proof (cases jd)
    case (JoinOn c)
    have q: "count_ph tn = 0" "count_ph c = 0"
      using Cons.prems(1) d JoinOn by (simp_all add: qfree_def)
    show ?thesis
      using Cons.prems(3) d JoinOn q by (auto intro!: step[of "'' INNER JOIN '' @ escapeIdentifier tn @ '' ON '' @ c"])
  next
    case (JoinCfg cfg)
    define ty where "ty = (case join_type cfg of None \<Rightarrow> ''INNER'' | Some t \<Rightarrow> t)"
    have run: "createJoin_loop ((tn, JoinCfg cfg) # rest) parts = Inr s"
      using Cons.prems(3) d JoinCfg by simp
    have valid: "ty \<in> set validTypes"
      using run unfolding ty_def by (auto simp: Let_def split: if_splits)
    have cty: "count_ph ty = 0" by (rule count_ph_validTypes[OF valid])
    have qtn: "count_ph tn = 0"
      using Cons.prems(1) d JoinCfg by (simp add: qfree_def)
    show ?thesis
    proof (cases "ty = ''CROSS''")
      case True
      have "createJoin_loop rest (parts @ ['' '' @ ty @ '' JOIN '' @ escapeIdentifier tn]) = Inr s"
        using run valid True unfolding ty_def by (simp add: Let_def)
      moreover have "count_ph ('' '' @ ty @ '' JOIN '' @ escapeIdentifier tn) = 0"
        using cty qtn by simp
      ultimately show ?thesis using step by blast
    next
      case False
      show ?thesis
      proof (cases "join_using cfg")
        case (Some us)
        then have usne: "us \<noteq> []" using run valid False unfolding ty_def
          by (auto simp: Let_def split: if_splits)
        have "list_all qfree us" using Cons.prems(1) d JoinCfg Some by simp
        then have qus: "\<forall>u \<in> set us. count_ph (escapeIdentifier u) = 0"
          by (auto simp: list_all_iff qfree_def)
        let ?p = "'' '' @ ty @ '' JOIN '' @ escapeIdentifier tn @ '' USING ('' @ join '', '' (map escapeIdentifier us) @ '')''"
        have "createJoin_loop rest (parts @ [?p]) = Inr s"
          using run valid False Some usne unfolding ty_def by (simp add: Let_def)
        moreover have "count_ph ?p = 0"
          using cty qtn qus by (simp add: count_ph_join)
        ultimately show ?thesis using step by blast
      next
        case None
        then obtain c where c: "join_on cfg = Some c" "c \<noteq> []"
          using run valid False unfolding ty_def
          by (auto simp: Let_def split: if_splits option.splits)
        have qc: "count_ph c = 0" using Cons.prems(1) d JoinCfg c by (simp add: qfree_def)
        let ?p = "'' '' @ ty @ '' JOIN '' @ escapeIdentifier tn @ '' ON '' @ c"
        have "createJoin_loop rest (parts @ [?p]) = Inr s"
          using run valid False None c unfolding ty_def by (simp add: Let_def)
        moreover have "count_ph ?p = 0"
          using cty qtn qc by simp
        ultimately show ?thesis using step by blast
      qed
    qed
  qed
qed

lemma count_ph_createJoin:
  "wf_join j \<Longrightarrow> createJoin j = Inr s \<Longrightarrow> count_ph s = 0"
  using createJoin_loop_qfree[of _ "[]" s]
  by (auto simp: createJoin_def wf_join_def split: option.splits if_splits)

lemma count_ph_split_dot: "sum_list (map count_ph (split_dot s)) = count_ph s"
  by (induction s) (auto split: list.splits)

lemma count_ph_escapeDotted: "count_ph (escapeDotted f) = count_ph f"
proof -
  have "sum_list (map count_ph (map escapeIdentifier (split_dot f))) = count_ph f"
    using count_ph_split_dot[of f] by (simp add: comp_def)
  then show ?thesis by (simp add: escapeDotted_def count_ph_join)
qed

lemma count_ph_createGroupBy: "wf_groupBy g \<Longrightarrow> count_ph (createGroupBy g) = 0"
proof (cases g)
  case None
  then show ?thesis by (simp add: createGroupBy_def)
next
  case (Some gb)
  assume wf: "wf_groupBy g"
  show ?thesis
  proof (cases gb)
    case (GStr s)
    with Some wf show ?thesis
      by (simp add: createGroupBy_def wf_groupBy_def qfree_def count_ph_escapeDotted)
  next
    case (GArr fs)
    with Some wf have "\<forall>f \<in> set fs. count_ph (escapeDotted f) = 0"
      by (auto simp: wf_groupBy_def list_all_iff qfree_def count_ph_escapeDotted)
    with Some GArr show ?thesis
      by (simp add: createGroupBy_def count_ph_join)
  qed
qed

lemma createHaving_balanced:
  "wf_having h \<Longrightarrow> createHaving h = Inr r \<Longrightarrow> balanced r"
  using createFieldConditions_loop_balanced[of _ "[]" "[]" r]
  by (auto simp: createHaving_def wf_having_def balanced_def qfree_def wf_params_def emptyVH_def
      split: option.splits having.splits)

lemma count_ph_clause: "count_ph kw = 0 \<Longrightarrow> count_ph (clause kw s) = count_ph s"
  by (simp add: clause_def)

lemma count_ph_limitClause [simp]: "count_ph (limitClause l) = 0"
  by (simp add: limitClause_def split: option.splits)

lemma count_ph_buildLimitOffset [simp]: "count_ph (buildLimitOffset l off) = 0"
  by (simp add: buildLimitOffset_def)


lemma buildSelect_balanced:
  assumes "wf_select p" and "buildSelect p = Inr r"
  shows "balanced r"
proof -
  from assms(2) obtain joinStr whereResult havingResult where
    j: "createJoin (sp_join p) = Inr joinStr" and
    w: "createWhere (sp_where p) = Inr whereResult" and
    h: "createHaving (sp_having p) = Inr havingResult"
    by (auto simp: buildSelect_def Let_def split: sum.splits)
  have cj: "count_ph joinStr = 0"
    using assms(1) j by (auto simp: wf_select_def intro: count_ph_createJoin)
  have bw: "count_ph (prepare whereResult) = length (holders whereResult)"
    using assms(1) w createWhere_balanced by (auto simp: wf_select_def balanced_def)
  have bh: "count_ph (prepare havingResult) = length (holders havingResult)"
    using assms(1) h createHaving_balanced by (auto simp: wf_select_def balanced_def)
  have cg: "count_ph (createGroupBy (sp_groupBy p)) = 0"
    using assms(1) by (simp add: wf_select_def count_ph_createGroupBy)
  have co: "count_ph (createOrder (sp_order p)) = 0"
    using assms(1) by (simp add: wf_select_def count_ph_createOrder)
  have ct: "count_ph (sp_table p) = 0"
    using assms(1) by (simp add: wf_select_def qfree_def)
  have cf: "count_ph (case sp_fields p of None \<Rightarrow> ''*'' | Some f \<Rightarrow> f) = 0"
    using assms(1) by (auto simp: wf_select_def qfree_def split: option.splits)
  have cl: "count_ph (case sp_limit p of None \<Rightarrow> []
            | Some limit \<Rightarrow>
                if limit \<noteq> 0 \<and> limit > 0
                then buildLimitOffset limit (case sp_offset p of None \<Rightarrow> 0 | Some n \<Rightarrow> n)
                else []) = 0"
    by (simp split: option.splits)
  have r: "r = \<lparr>prepare =
                 (''SELECT '' @ (case sp_fields p of None \<Rightarrow> ''*'' | Some f \<Rightarrow> f) @ '' FROM ''
                  @ escapeIdentifier (sp_table p)) @ joinStr
                 @ clause '' WHERE '' (prepare whereResult)
                 @ clause '' GROUP BY '' (createGroupBy (sp_groupBy p))
                 @ clause '' HAVING '' (prepare havingResult)
                 @ clause '' ORDER BY '' (createOrder (sp_order p))
                 @ (case sp_limit p of None \<Rightarrow> []
                    | Some limit \<Rightarrow>
                        if limit \<noteq> 0 \<and> limit > 0
                        then buildLimitOffset limit (case sp_offset p of None \<Rightarrow> 0 | Some n \<Rightarrow> n)
                        else []),
               holders =
                 (if prepare whereResult \<noteq> [] then holders whereResult else [])
                 @ (if prepare havingResult \<noteq> [] then holders havingResult else [])\<rparr>"
    using assms(2) j w h by (simp add: buildSelect_def Let_def)
  show ?thesis
    unfolding r balanced_def
    using cj bw bh cg co ct cf cl by (auto simp: count_ph_clause)
qed


lemma buildInsert_balanced:
  assumes "wf_insert p" and "buildInsert p = Inr r"
  shows "balanced r"
proof -
  from assms(2) obtain d ds where data: "ip_data p = d # ds"
    by (cases "ip_data p") (auto simp: buildInsert_def Let_def)
  have kq: "\<forall>f \<in> set (map fst d). count_ph (escapeIdentifier f) = 0"
    using assms(1) data by (auto simp: wf_insert_def keys_qfree_def list_all_iff qfree_def)
  have ct: "count_ph (ip_table p) = 0" using assms(1) by (simp add: wf_insert_def qfree_def)
  have row: "\<And>row. count_ph (''('' @ join '', '' (map (\<lambda>field. ''?'') (map fst d)) @ '')'') = length d"
    using count_ph_join_marks[of "map fst d"] by simp
  have sets: "sum_list (map count_ph (map (\<lambda>row. ''('' @ join '', '' (map (\<lambda>field. ''?'') (map fst d)) @ '')'') (d # ds)))
      = length (d # ds) * length d"
    using row by (simp add: comp_def sum_list_triv del: count_ph_append)
  have hs: "length (concat (map (\<lambda>row. map (\<lambda>field. toSQLHolder (getProp row field)) (map fst d)) (d # ds)))
      = length (d # ds) * length d"
    by (simp add: length_concat comp_def sum_list_triv)
  have r: "r = \<lparr>prepare = (''INSERT INTO '' @ escapeIdentifier (ip_table p) @ '' (''
                    @ join '', '' (map escapeIdentifier (map fst d)) @ '') VALUES'') @ '' '' @
                    join '', '' (map (\<lambda>row. ''('' @ join '', '' (map (\<lambda>field. ''?'') (map fst d)) @ '')'') (d # ds)),
                holders = concat (map (\<lambda>row. map (\<lambda>field. toSQLHolder (getProp row field)) (map fst d)) (d # ds))\<rparr>"
    using assms(2) data by (simp add: buildInsert_def Let_def)
  have fl: "count_ph (join '', '' (map escapeIdentifier (map fst d))) = 0"
    using kq by (simp add: count_ph_join)
  have vs: "count_ph (join '', '' (map (\<lambda>row. ''('' @ join '', '' (map (\<lambda>field. ''?'') (map fst d)) @ '')'') (d # ds)))
      = length (d # ds) * length d"
    using sets by (simp only: count_ph_join[of "'', ''", simplified])
  show ?thesis
    unfolding r balanced_def using ct fl vs hs
    by (simp only: ValueHolders.simps count_ph_append count_ph_escapeIdentifier) simp
qed

lemma buildUpdate_loop_balanced:
  assumes "keys_qfree data"
      and "sum_list (map count_ph parts) = length hs"
      and "buildUpdate_loop data parts hs = (parts', hs')"
  shows "sum_list (map count_ph parts') = length hs'"
  using assms
proof (induction data arbitrary: parts hs)
  case Nil
  then show ?case by simp
next
  case (Cons a data)
  obtain key v where a: "a = (key, v)" by (cases a)
  have qk: "qfree key" and rest: "keys_qfree data"
    using Cons.prems(1) a by (simp_all add: keys_qfree_def)
  have br: "count_ph (prepare (createDataFilter key v)) = length (holders (createDataFilter key v))"
    using createDataFilter_balanced[OF qk, of v] by (simp add: balanced_def)
  show ?case
  proof (cases "prepare (createDataFilter key v) \<noteq> []")
    case True
    then have "buildUpdate_loop data (parts @ [prepare (createDataFilter key v)])
                 (hs @ holders (createDataFilter key v)) = (parts', hs')"
      using Cons.prems(3) a by (simp add: Let_def)
    moreover have "sum_list (map count_ph (parts @ [prepare (createDataFilter key v)]))
                     = length (hs @ holders (createDataFilter key v))"
      using Cons.prems(2) br by simp
    ultimately show ?thesis using Cons.IH rest by blast
  next
    case False
    then have "buildUpdate_loop data parts hs = (parts', hs')"
      using Cons.prems(3) a by (simp add: Let_def)
    then show ?thesis using Cons.IH rest Cons.prems(2) by blast
  qed
qed

lemma buildUpdate_balanced:
  assumes "wf_update p" and "buildUpdate p = Inr r"
  shows "balanced r"
proof -
  obtain parts hs where loop: "buildUpdate_loop (up_data p) [] [] = (parts, hs)"
    by (cases "buildUpdate_loop (up_data p) [] []")
  have inv: "sum_list (map count_ph parts) = length hs"
    using buildUpdate_loop_balanced[OF _ _ loop] assms(1) by (simp add: wf_update_def)
  from assms(2) loop obtain whereResult where
    w: "createWhere (up_where p) = Inr whereResult"
    by (auto simp: buildUpdate_def split: sum.splits if_splits)
  have bw: "count_ph (prepare whereResult) = length (holders whereResult)"
    using assms(1) w createWhere_balanced by (auto simp: wf_update_def balanced_def)
  have co: "count_ph (createOrder (up_order p)) = 0"
    using assms(1) by (simp add: wf_update_def count_ph_createOrder)
  have ct: "count_ph (up_table p) = 0"
    using assms(1) by (simp add: wf_update_def qfree_def)
  have r: "r = \<lparr>prepare = ''UPDATE '' @ escapeIdentifier (up_table p) @ '' SET ''
                        @ join '', '' parts
                        @ clause '' WHERE '' (prepare whereResult)
                        @ clause '' ORDER BY '' (createOrder (up_order p))
                        @ limitClause (up_limit p),
                holders = hs @ (if prepare whereResult \<noteq> [] then holders whereResult else [])\<rparr>"
    using assms(2) loop w by (auto simp: buildUpdate_def split: if_splits)
  show ?thesis
    unfolding r balanced_def
    using inv bw co ct by (auto simp: count_ph_clause count_ph_join)
qed

lemma buildDelete_balanced:
  assumes "wf_delete p" and "buildDelete p = Inr r"
  shows "balanced r"
proof -
  from assms(2) obtain whereResult where
    w: "createWhere (dp_where p) = Inr whereResult"
    by (auto simp: buildDelete_def split: sum.splits)
  have bw: "count_ph (prepare whereResult) = length (holders whereResult)"
    using assms(1) w createWhere_balanced by (auto simp: wf_delete_def balanced_def)
  have co: "count_ph (createOrder (dp_order p)) = 0"
    using assms(1) by (simp add: wf_delete_def count_ph_createOrder)
  have ct: "count_ph (dp_table p) = 0"
    using assms(1) by (simp add: wf_delete_def qfree_def)
  show ?thesis
    using assms(2) w bw co ct
    by (auto simp: buildDelete_def balanced_def count_ph_clause)
qed

lemma buildCount_balanced:
  assumes "wf_count p" and "buildCount p = Inr r"
  shows "balanced r"
proof -
  from assms(2) obtain joinStr whereResult havingResult where
    j: "createJoin (cp_join p) = Inr joinStr" and
    w: "createWhere (cp_where p) = Inr whereResult" and
    h: "createHaving (cp_having p) = Inr havingResult"
    by (auto simp: buildCount_def split: sum.splits)
  have cj: "count_ph joinStr = 0"
    using assms(1) j by (auto simp: wf_count_def intro: count_ph_createJoin)
  have bw: "count_ph (prepare whereResult) = length (holders whereResult)"
    using assms(1) w createWhere_balanced by (auto simp: wf_count_def balanced_def)
  have bh: "count_ph (prepare havingResult) = length (holders havingResult)"
    using assms(1) h createHaving_balanced by (auto simp: wf_count_def balanced_def)
  have cg: "count_ph (createGroupBy (cp_groupBy p)) = 0"
    using assms(1) by (simp add: wf_count_def count_ph_createGroupBy)
  have ct: "count_ph (cp_table p) = 0"
    using assms(1) by (simp add: wf_count_def qfree_def)
  show ?thesis
    using assms(2) j w h cj bw bh cg ct
    by (auto simp: buildCount_def balanced_def count_ph_clause)
qed

lemma buildExists_balanced:
  assumes "qfree tn" and "wf_where w" and "buildExists tn w = Inr r"
  shows "balanced r"
proof -
  from assms(3) obtain whereResult where
    w: "createWhere w = Inr whereResult"
    by (auto simp: buildExists_def split: sum.splits)
  have bw: "count_ph (prepare whereResult) = length (holders whereResult)"
    using assms(2) w createWhere_balanced by (auto simp: balanced_def)
  show ?thesis
    using assms(1,3) w bw
    by (auto simp: buildExists_def balanced_def count_ph_clause qfree_def)
qed

lemma count_ph_assignments:
  "keys_qfree kvs \<Longrightarrow>
   sum_list (map count_ph (map (\<lambda>(key, v). escapeIdentifier key @ '' = ?'') kvs)) = length kvs"
  by (induction kvs) (auto simp: keys_qfree_def qfree_def)

lemma count_ph_escaped_keys:
  "keys_qfree kvs \<Longrightarrow>
   sum_list (map count_ph (map (\<lambda>(key, v). escapeIdentifier key) kvs)) = 0"
  by (induction kvs) (auto simp: keys_qfree_def qfree_def)

lemma buildUpsert_balanced:
  assumes "wf_upsert tn p"
  shows "balanced (buildUpsert tn p)"
proof -
  define updateFields where "updateFields = (case us_updateData p of None \<Rightarrow> us_data p | Some u \<Rightarrow> u)"
  define kept where "kept = filter (\<lambda>(key, v). key \<notin> set (us_uniqueKeys p)) updateFields"
  have kd: "keys_qfree (us_data p)" and ct: "count_ph tn = 0"
    using assms by (simp_all add: wf_upsert_def qfree_def)
  have "keys_qfree updateFields"
    using assms unfolding updateFields_def by (auto simp: wf_upsert_def split: option.splits)
  then have kk: "keys_qfree kept" unfolding kept_def by (rule keys_qfree_filter)
  have marks: "count_ph (join '', '' (map (\<lambda>f. ''?'') (map (\<lambda>(key, v). escapeIdentifier key) (us_data p))))
     = length (us_data p)"
    using count_ph_join_marks[of "map (\<lambda>(key, v). escapeIdentifier key) (us_data p)"] by simp
  have flds: "count_ph (join '', '' (map (\<lambda>(key, v). escapeIdentifier key) (us_data p))) = 0"
    using count_ph_escaped_keys[OF kd] by (simp add: count_ph_join)
  have ups: "count_ph (join '', '' (map (\<lambda>(key, v). escapeIdentifier key @ '' = ?'') kept)) = length kept"
    using count_ph_assignments[OF kk] by (simp add: count_ph_join)
  show ?thesis
    using ct marks flds ups
    by (simp add: buildUpsert_def Let_def balanced_def updateFields_def[symmetric] kept_def[symmetric])
qed


text \<open>
  Claim C3 (as amended). For every statement the compiler produces from well-formed input,
  the number of placeholders in the text equals the number of parameters. Well-formed
  means that the text copied verbatim into the statement carries no placeholder of its
  own (table names, the field list, field keys, ORDER BY keys, GROUP BY fields, JOIN
  tables and conditions, bare raw fragments) and that a raw fragment with parameters
  has as many placeholders as parameters.
\<close>

theorem compiled_statements_balanced:
  "(wf_select sp \<and> buildSelect sp = Inr r1 \<longrightarrow> balanced r1)
   \<and> (wf_insert ip \<and> buildInsert ip = Inr r2 \<longrightarrow> balanced r2)
   \<and> (wf_update up \<and> buildUpdate up = Inr r3 \<longrightarrow> balanced r3)
   \<and> (wf_delete dp \<and> buildDelete dp = Inr r4 \<longrightarrow> balanced r4)
   \<and> (wf_count cp \<and> buildCount cp = Inr r5 \<longrightarrow> balanced r5)
   \<and> (qfree tn \<and> wf_where w \<and> buildExists tn w = Inr r6 \<longrightarrow> balanced r6)
   \<and> (wf_upsert tn' usp \<longrightarrow> balanced (buildUpsert tn' usp))"
  using buildSelect_balanced buildInsert_balanced buildUpdate_balanced buildDelete_balanced
    buildCount_balanced buildExists_balanced buildUpsert_balanced
  by blast

theorem compiled_statements_balanced_witness:
  "wf_select demo_select
   \<and> buildSelect demo_select =
       Inr \<lparr>prepare = ''SELECT * FROM `users` INNER JOIN `orders` ON users.id = orders.user_id WHERE (`age` >= ? AND `age` < ?) AND score > ? AND active = 1 AND ( `city` = ? OR ( `city` = ? AND `vip` = ? ) ) GROUP BY `users`.`id` HAVING `total` IN (?, ?) ORDER BY `id` DESC LIMIT 20, 10'',
            holders = [JNum 18, JNum 60, JNum 5, JStr ''Beijing'', JStr ''Shanghai'', JNum 1,
                       JNum 1, JNum 2]\<rparr>
   \<and> balanced \<lparr>prepare = ''SELECT * FROM `users` INNER JOIN `orders` ON users.id = orders.user_id WHERE (`age` >= ? AND `age` < ?) AND score > ? AND active = 1 AND ( `city` = ? OR ( `city` = ? AND `vip` = ? ) ) GROUP BY `users`.`id` HAVING `total` IN (?, ?) ORDER BY `id` DESC LIMIT 20, 10'',
            holders = [JNum 18, JNum 60, JNum 5, JStr ''Beijing'', JStr ''Shanghai'', JNum 1,
                       JNum 1, JNum 2]\<rparr>"
proof -
  have h1: "wf_select demo_select"
    by (simp add: demo_select_def wf_select_def qfree_def keys_qfree_def wf_params_def
        wf_order_def wf_join_def wf_groupBy_def wf_having_def)
  have h2: "buildSelect demo_select =
       Inr \<lparr>prepare = ''SELECT * FROM `users` INNER JOIN `orders` ON users.id = orders.user_id WHERE (`age` >= ? AND `age` < ?) AND score > ? AND active = 1 AND ( `city` = ? OR ( `city` = ? AND `vip` = ? ) ) GROUP BY `users`.`id` HAVING `total` IN (?, ?) ORDER BY `id` DESC LIMIT 20, 10'',
            holders = [JNum 18, JNum 60, JNum 5, JStr ''Beijing'', JStr ''Shanghai'', JNum 1,
                       JNum 1, JNum 2]\<rparr>"
    by code_simp
  from compiled_statements_balanced[where sp = demo_select, THEN conjunct1] h1 h2
  show ?thesis by blast
qed

text \<open>
  Claim C3 as stated fails on the raw forms, which are copied through unchecked: a raw
  string with a placeholder comes with no parameter, and a fragment with parameters may
  carry more parameters than placeholders.
\<close>

theorem raw_fragment_counterexample:
  "buildSelect \<lparr>sp_table = ''users'', sp_fields = None, sp_where = WStr ''age > ?'',
      sp_order = None, sp_limit = None, sp_offset = None, sp_join = None, sp_groupBy = None,
      sp_having = None\<rparr>
     = Inr \<lparr>prepare = ''SELECT * FROM `users` WHERE age > ?'', holders = []\<rparr>
   \<and> \<not> balanced \<lparr>prepare = ''SELECT * FROM `users` WHERE age > ?'', holders = []\<rparr>
   \<and> buildSelect \<lparr>sp_table = ''users'', sp_fields = None,
      sp_where = WTuple ''status = 1'' (Some [JNum 5]),
      sp_order = None, sp_limit = None, sp_offset = None, sp_join = None, sp_groupBy = None,
      sp_having = None\<rparr>
     = Inr \<lparr>prepare = ''SELECT * FROM `users` WHERE status = 1'', holders = [JNum 5]\<rparr>
   \<and> \<not> balanced \<lparr>prepare = ''SELECT * FROM `users` WHERE status = 1'', holders = [JNum 5]\<rparr>"
  by (simp add: buildSelect_def createJoin_def createHaving_def emptyVH_def clause_def
      createGroupBy_def createOrder_def escapeIdentifier_def balanced_def)

section \<open>Properties of the connection driver\<close>

lemma invoked_recreatePool [simp]: "invoked (recreatePool s) = invoked s"
  by (simp add: recreatePool_def)

lemma retry_loop_invoked:
  "invoked (snd (retry_loop operation attempt ce le s)) \<le> invoked s + (4 - attempt)"
proof (induction operation attempt ce le s rule: retry_loop.induct)
  case (1 operation attempt consecutiveErrors lastError s)
  show ?case
  proof (cases "attempt \<le> 3")
    case False
    then show ?thesis by (subst retry_loop.simps) simp
  next
    case le3: True
    define s1 where "s1 = (if isPoolDead s \<and> attempt > 1 then recreatePool s else s)"
    define s2 where "s2 = s1\<lparr>invoked := Suc (invoked s1)\<rparr>"
    have i2: "invoked s2 = Suc (invoked s)" by (simp add: s2_def s1_def)
    show ?thesis
    proof (cases "operation attempt")
      case (Inr result)
      then show ?thesis
        using le3 i2 by (subst retry_loop.simps) (simp add: Let_def s1_def s2_def)
    next
      case (Inl error)
      show ?thesis
      proof (cases "isConnectionError error \<and> attempt \<noteq> 3")
        case False
        then show ?thesis
          using le3 Inl i2 by (subst retry_loop.simps) (auto simp: Let_def s1_def s2_def)
      next
        case True
        define s3 where "s3 = (if consecutiveErrors + 1 \<ge> 2 then s2\<lparr>isPoolDead := True\<rparr> else s2)"
        have i3: "invoked s3 = Suc (invoked s)" using i2 by (simp add: s3_def)
        have ih: "invoked (snd (retry_loop operation (attempt + 1) (consecutiveErrors + 1) error
                    (s3\<lparr>waited := waited s3 @ [if attempt = 1 then 100 else 1000]\<rparr>)))
                  \<le> invoked (s3\<lparr>waited := waited s3 @ [if attempt = 1 then 100 else 1000]\<rparr>) + (4 - (attempt + 1))"
          using "1.IH"[OF _ s1_def[symmetric, THEN sym] s2_def[symmetric, THEN sym] Inl _ refl s3_def[symmetric, THEN sym] _ refl]
            le3 True by simp
        have unfold: "retry_loop operation attempt consecutiveErrors lastError s =
            retry_loop operation (attempt + 1) (consecutiveErrors + 1) error
                    (s3\<lparr>waited := waited s3 @ [if attempt = 1 then 100 else 1000]\<rparr>)"
          using le3 Inl True
          by (subst retry_loop.simps) (simp add: Let_def s1_def s2_def s3_def)
        show ?thesis unfolding unfold using ih i3 le3 by simp
      qed
    qed
  qed
qed

lemma retryOnConnectionError_invoked:
  "invoked (snd (retryOnConnectionError operation s)) \<le> invoked s + 3"
  using retry_loop_invoked[of operation 1 0 ThrownFalsy s]
  by (simp add: retryOnConnectionError_def)

lemma retry_fail_fail_succeed:
  assumes "\<not> connection s" "\<not> rebuildLock s"
      and "operation 1 = Inl e1" "isConnectionError e1"
      and "operation 2 = Inl e2" "isConnectionError e2"
      and "operation 3 = Inr v"
  shows "retryOnConnectionError operation s =
           (Inr v, s\<lparr>pool := pool s + (if isPoolDead s then 2 else 1), isPoolDead := False,
                     invoked := invoked s + 3, waited := waited s @ [100, 1000]\<rparr>)"
  using assms
  by (simp add: retryOnConnectionError_def retry_loop.simps Let_def recreatePool_def
      numeral_2_eq_2 numeral_3_eq_3)

lemma retry_fail_three_times:
  assumes "\<not> connection s"
      and "operation 1 = Inl e1" "isConnectionError e1"
      and "operation 2 = Inl e2" "isConnectionError e2"
      and "operation 3 = Inl e3" "isConnectionError e3"
  shows "fst (retryOnConnectionError operation s) = Inl e3
         \<and> invoked (snd (retryOnConnectionError operation s)) = invoked s + 3"
  using assms
  by (simp add: retryOnConnectionError_def retry_loop.simps Let_def recreatePool_def
      numeral_2_eq_2 numeral_3_eq_3)


text \<open>
  Claim C2 (as amended). Outside a transaction and with no other rebuild in flight, a call
  whose operation fails with a retryable error on attempts 1 and 2 and succeeds on
  attempt 3 returns the successful result after waiting 100 ms and 1000 ms; the pool is
  rebuilt once when it was not marked dead at the start of the call, and twice (before
  the second and before the third attempt) when it was. No call invokes its operation
  more than three times, and after three retryable failures the error of the third
  attempt is thrown. \<open>query\<close> and \<open>execute\<close> are instances of this call.
\<close>

theorem retry_protocol:
  "(\<not> connection s \<and> \<not> rebuildLock s \<and> operation 1 = Inl e1 \<and> isConnectionError e1
      \<and> operation 2 = Inl e2 \<and> isConnectionError e2 \<and> operation 3 = Inr v
    \<longrightarrow> retryOnConnectionError operation s =
          (Inr v, s\<lparr>pool := pool s + (if isPoolDead s then 2 else 1), isPoolDead := False,
                    invoked := invoked s + 3, waited := waited s @ [100, 1000]\<rparr>))
   \<and> invoked (snd (retryOnConnectionError operation s)) \<le> invoked s + 3
   \<and> (\<not> connection s \<and> operation 1 = Inl e1 \<and> isConnectionError e1
      \<and> operation 2 = Inl e2 \<and> isConnectionError e2
      \<and> operation 3 = Inl e3 \<and> isConnectionError e3
    \<longrightarrow> fst (retryOnConnectionError operation s) = Inl e3
        \<and> invoked (snd (retryOnConnectionError operation s)) = invoked s + 3)"
  using retry_fail_fail_succeed[of s operation e1 e2 v]
    retryOnConnectionError_invoked[of operation s]
    retry_fail_three_times[of s operation e1 e2 e3]
  by blast

theorem retry_protocol_witness:
  "retryOnConnectionError fails_twice new_driver =
     (Inr [JNum 1],
      \<lparr>connection = False, isPoolDead = False, rebuildLock = False, pool = 1,
       invoked = 3, waited = [100, 1000]\<rparr>)"
proof -
  have c: "isConnectionError ECONNRESET"
    by (simp add: ECONNRESET_def connectionErrorCodes_def)
  have h: "\<not> connection new_driver \<and> \<not> rebuildLock new_driver
      \<and> fails_twice 1 = Inl ECONNRESET \<and> isConnectionError ECONNRESET
      \<and> fails_twice 2 = Inl ECONNRESET \<and> isConnectionError ECONNRESET
      \<and> fails_twice 3 = Inr [JNum 1]"
    using c by (simp add: new_driver_def fails_twice_def)
  from retry_protocol[of new_driver fails_twice ECONNRESET ECONNRESET "[JNum 1]", THEN conjunct1] h
  show ?thesis by (simp add: new_driver_def)
qed

text \<open>
  Claim C2 as stated fails for a driver whose pool is already marked dead, as it is after a
  call that failed three times: the next call that fails twice and then succeeds rebuilds
  the pool twice.
\<close>

theorem pool_rebuilt_twice_counterexample:
  "\<not> connection exhausted_driver \<and> isPoolDead exhausted_driver
   \<and> isConnectionError ECONNRESET
   \<and> fails_twice 1 = Inl ECONNRESET \<and> fails_twice 2 = Inl ECONNRESET
   \<and> fst (retryOnConnectionError fails_twice exhausted_driver) = Inr [JNum 1]
   \<and> pool (snd (retryOnConnectionError fails_twice exhausted_driver)) = pool exhausted_driver + 2"
proof -
  have c: "isConnectionError ECONNRESET"
    by (simp add: ECONNRESET_def connectionErrorCodes_def)
  have e: "exhausted_driver =
             \<lparr>connection = False, isPoolDead = True, rebuildLock = False, pool = 1,
              invoked = 3, waited = [100, 1000]\<rparr>"
    using c
    by (simp add: exhausted_driver_def retryOnConnectionError_def new_driver_def
        retry_loop.simps Let_def recreatePool_def numeral_2_eq_2 numeral_3_eq_3)
  have r: "retryOnConnectionError fails_twice exhausted_driver =
             (Inr [JNum 1],
              \<lparr>connection = False, isPoolDead = False, rebuildLock = False, pool = 3,
               invoked = 6, waited = [100, 1000, 100, 1000]\<rparr>)"
    unfolding e using c
    by (simp add: retryOnConnectionError_def fails_twice_def
        retry_loop.simps Let_def recreatePool_def numeral_2_eq_2 numeral_3_eq_3)
  show ?thesis
    unfolding r using c by (simp add: e fails_twice_def)
qed

section \<open>Properties of the managed cache client\<close>

text \<open>Frame: the cache commands leave the lock service's own fields alone.\<close>

lemma same_service_refl [simp]: "same_service w w"
  by (simp add: same_service_def)
























section \<open>Properties of the lease lock\<close>































end
